theory Spec2Isabelle
  imports Main
begin

section \<open>The ledger, the registries and the outcome of a handler\<close>

text \<open>
  \<^verbatim>\<open>server.js\<close> keeps its shared state in four module-level variables:
  \<^verbatim>\<open>users\<close> (username to \<^verbatim>\<open>{ username, passwordHash, balance }\<close>),
  \<^verbatim>\<open>giveaways\<close> (an array), \<^verbatim>\<open>sockets\<close> (socket id to username) and
  \<^verbatim>\<open>online\<close> (username to \<^verbatim>\<open>{ id, username }\<close>).
  Amounts are JavaScript numbers; the model takes them as integers (the amounts the
  arithmetic of a double represents exactly), and \<^verbatim>\<open>NaN\<close> is not an amount of the model.
\<close>

record user =
  username :: string
  passwordHash :: string
  balance :: int

record giveaway =
  gid :: int
  host :: string
  amount :: int
  entrants :: "string list"
  createdAt :: int

text \<open>
  \<^verbatim>\<open>online\<close> is enumerated by \<^verbatim>\<open>Object.keys\<close>, so its order matters: it is an
  association list from username to socket id, in the enumeration order of the object.
\<close>

record state =
  users :: "string \<rightharpoonup> user"
  giveaways :: "giveaway list"
  sockets :: "string \<rightharpoonup> string"
  online :: "(string \<times> string) list"

text \<open>
  A handler either runs to its end (\<open>Done\<close>, with the state it leaves), emits a
  \<^verbatim>\<open>system\<close> message to the requester and returns before changing anything
  (\<open>Rejected\<close>, with the message of the source), returns silently (\<open>Ignored\<close>), or
  raises a \<^verbatim>\<open>TypeError\<close> by reading a property of \<^verbatim>\<open>undefined\<close> (\<open>Threw\<close>, with
  the shared state as the statements before the exception left it; what is local
  to the connection is not followed past an exception).
\<close>

datatype 'a outcome = Done 'a | Rejected string | Ignored | Threw state

fun and_then :: "'a outcome \<Rightarrow> ('a \<Rightarrow> 'a outcome) \<Rightarrow> 'a outcome" where
  "and_then (Done x) f = f x"
| "and_then (Rejected m) f = Rejected m"
| "and_then Ignored f = Ignored"
| "and_then (Threw st) f = Threw st"

definition balance_of :: "state \<Rightarrow> string \<Rightarrow> int option" where
  "balance_of st u = map_option balance (users st u)"

text \<open>\<^verbatim>\<open>users[u].balance += amt\<close> for a \<open>u\<close> that is a key of \<^verbatim>\<open>users\<close>.\<close>

definition add_balance :: "string \<Rightarrow> int \<Rightarrow> (string \<rightharpoonup> user) \<Rightarrow> (string \<rightharpoonup> user)" where
  "add_balance u amt us =
     (case us u of None \<Rightarrow> us | Some x \<Rightarrow> us(u \<mapsto> x\<lparr>balance := balance x + amt\<rparr>))"

section \<open>Trades\<close>

text \<open>
  \<^verbatim>\<open>tradeCounter\<close>, \<^verbatim>\<open>trades\<close> and \<^verbatim>\<open>bjStates\<close> are declared inside the
  \<^verbatim>\<open>connection\<close> callback: every connection has its own.
\<close>

datatype trade_status = Pending | Accepted | Declined

record trade =
  tid :: nat
  tfrom :: string
  tto :: string
  status :: trade_status

section \<open>Cards and blackjack\<close>

datatype rank = R2 | R3 | R4 | R5 | R6 | R7 | R8 | R9 | R10 | RJ | RQ | RK | RA

datatype suit = Spades | Hearts | Diamonds | Clubs

record card =
  card_r :: rank
  card_s :: suit

text \<open>
  \<^verbatim>\<open>deck()\<close> builds the 52 cards suit by suit and shuffles them with
  \<^verbatim>\<open>Math.random\<close>. The handlers only ever \<^verbatim>\<open>pop\<close> a deck, so a deck of the model
  is the array read from its end: the head of the list is the card the next
  \<^verbatim>\<open>d.pop()\<close> returns. The shuffled deck is a parameter of the handlers that call
  \<^verbatim>\<open>deck()\<close>.
\<close>

definition ranks :: "rank list" where
  "ranks = [R2, R3, R4, R5, R6, R7, R8, R9, R10, RJ, RQ, RK, RA]"

definition suits :: "suit list" where
  "suits = [Spades, Hearts, Diamonds, Clubs]"

definition unshuffled :: "card list" where
  "unshuffled = concat (map (\<lambda>s. map (\<lambda>r. \<lparr>card_r = r, card_s = s\<rparr>) ranks) suits)"

text \<open>
  \<^verbatim>\<open>valueHand\<close>: every card adds its points (an ace 11 and counts as an ace, a
  king, queen or jack 10, any other card \<^verbatim>\<open>Number(c.r)\<close>); then, while the sum is
  over 21 and an ace is left, 10 is taken off and the ace is used up.
\<close>

fun points :: "rank \<Rightarrow> int" where
  "points RA = 11"
| "points RK = 10"
| "points RQ = 10"
| "points RJ = 10"
| "points R10 = 10"
| "points R9 = 9"
| "points R8 = 8"
| "points R7 = 7"
| "points R6 = 6"
| "points R5 = 5"
| "points R4 = 4"
| "points R3 = 3"
| "points R2 = 2"

definition value_step :: "card \<Rightarrow> int \<times> nat \<Rightarrow> int \<times> nat" where
  "value_step c = (\<lambda>(tot, aces).
     if card_r c = RA then (tot + 11, aces + 1) else (tot + points (card_r c), aces))"

fun soften :: "int \<Rightarrow> nat \<Rightarrow> int" where
  "soften tot 0 = tot"
| "soften tot (Suc aces) = (if tot > 21 then soften (tot - 10) aces else tot)"

definition valueHand :: "card list \<Rightarrow> int" where
  "valueHand h = (case fold value_step h (0, 0) of (tot, aces) \<Rightarrow> soften tot aces)"

record bjstate =
  deck :: "card list"
  player :: "card list"
  dealer :: "card list"
  bet :: int
  done_flag :: bool
  socketid :: string

text \<open>What one connection's closure holds.\<close>

record conn =
  tradeCounter :: nat
  trades :: "nat \<rightharpoonup> trade"
  bjStates :: "string \<rightharpoonup> bjstate"

definition trade_start :: "string \<Rightarrow> string \<Rightarrow> state \<times> conn \<Rightarrow> (state \<times> conn) outcome" where
  "trade_start sid to = (\<lambda>(st, cn).
     case sockets st sid of
       None \<Rightarrow> Rejected ''login required''
     | Some frm \<Rightarrow>
         (case users st to of
            None \<Rightarrow> Rejected ''user not found''
          | Some _ \<Rightarrow>
              Done (st, cn\<lparr>tradeCounter := tradeCounter cn + 1,
                           trades := (trades cn)(tradeCounter cn \<mapsto>
                             \<lparr>tid = tradeCounter cn, tfrom = frm, tto = to, status = Pending\<rparr>)\<rparr>)))"

definition trade_accept :: "nat \<Rightarrow> conn \<Rightarrow> conn outcome" where
  "trade_accept i cn =
     (case trades cn i of
        None \<Rightarrow> Ignored
      | Some t \<Rightarrow>
          if status t = Pending
          then Done (cn\<lparr>trades := (trades cn)(i \<mapsto> t\<lparr>status := Accepted\<rparr>)\<rparr>)
          else Ignored)"

definition trade_decline :: "nat \<Rightarrow> conn \<Rightarrow> conn outcome" where
  "trade_decline i cn =
     (case trades cn i of
        None \<Rightarrow> Ignored
      | Some t \<Rightarrow> Done (cn\<lparr>trades := (trades cn)(i \<mapsto> t\<lparr>status := Declined\<rparr>)\<rparr>))"

text \<open>A connection as the \<^verbatim>\<open>connection\<close> callback creates it.\<close>

definition new_conn :: conn where
  "new_conn = \<lparr>tradeCounter = 1, trades = Map.empty, bjStates = Map.empty\<rparr>"

text \<open>
  \<^verbatim>\<open>bj_start\<close>. \<^verbatim>\<open>deck()\<close> returns 52 cards, so the four \<^verbatim>\<open>pop\<close>s find a
  card; a shorter list is not a value of \<^verbatim>\<open>deck()\<close> and is answered with \<open>Threw\<close>.
  There is no check of the sign of \<^verbatim>\<open>bet\<close>, and \<^verbatim>\<open>bet\<close> is stored as it came:
  the model follows the bets that are numbers. (A string such as \<^verbatim>\<open>'10'\<close> passes
  \<^verbatim>\<open>balance < bet\<close> and \<^verbatim>\<open>balance -= bet\<close> as the number 10, and the
  \<^verbatim>\<open>balance += s.bet\<close> of a push would append it to the balance.)
\<close>

definition bj_start :: "string \<Rightarrow> int \<Rightarrow> card list \<Rightarrow> state \<times> conn \<Rightarrow> (state \<times> conn) outcome" where
  "bj_start sid b d = (\<lambda>(st, cn).
     case sockets st sid of
       None \<Rightarrow> Rejected ''login required''
     | Some usr \<Rightarrow>
         (case users st usr of
            None \<Rightarrow> Rejected ''not enough funds''
          | Some u \<Rightarrow>
              if balance u < b then Rejected ''not enough funds''
              else
                let st' = st\<lparr>users := (users st)(usr \<mapsto> u\<lparr>balance := balance u - b\<rparr>)\<rparr> in
                (case d of
                   p1 # p2 # d1 # d2 # rest \<Rightarrow>
                     Done (st', cn\<lparr>bjStates := (bjStates cn)(usr \<mapsto>
                       \<lparr>deck = rest, player = [p1, p2], dealer = [d1, d2], bet = b,
                        done_flag = False, socketid = sid\<rparr>)\<rparr>)
                 | _ \<Rightarrow> Threw st')))"

text \<open>
  The dealer's loop of the \<^verbatim>\<open>stand\<close> branch:
  \<^verbatim>\<open>while(valueHand(s.dealer) < 17) s.dealer.push(s.deck.pop())\<close>.
  On an empty deck \<^verbatim>\<open>pop\<close> returns \<^verbatim>\<open>undefined\<close>, and the next \<^verbatim>\<open>valueHand\<close>
  raises: \<open>None\<close>.
\<close>

fun dealer_draws :: "card list \<Rightarrow> card list \<Rightarrow> (card list \<times> card list) option" where
  "dealer_draws dl [] = (if valueHand dl < 17 then None else Some (dl, []))"
| "dealer_draws dl (c # d) =
     (if valueHand dl < 17 then dealer_draws (dl @ [c]) d else Some (dl, c # d))"

text \<open>
  \<^verbatim>\<open>bj_action\<close>. Neither branch reads \<^verbatim>\<open>s.done\<close>, and only the
  \<^verbatim>\<open>stand\<close> branch deletes the state.
\<close>

definition bj_action :: "string \<Rightarrow> string \<Rightarrow> state \<times> conn \<Rightarrow> (state \<times> conn) outcome" where
  "bj_action sid action = (\<lambda>(st, cn).
     case sockets st sid of
       None \<Rightarrow> Ignored
     | Some usr \<Rightarrow>
         (case bjStates cn usr of
            None \<Rightarrow> Ignored
          | Some s \<Rightarrow>
              if action = ''hit'' then
                (case deck s of
                   [] \<Rightarrow> Threw st
                 | c # d \<Rightarrow>
                     let s1 = s\<lparr>deck := d, player := player s @ [c]\<rparr>;
                         v = valueHand (player s1)
                     in if v > 21
                        then Done (st, cn\<lparr>bjStates := (bjStates cn)(usr \<mapsto> s1\<lparr>done_flag := True\<rparr>)\<rparr>)
                        else Done (st, cn\<lparr>bjStates := (bjStates cn)(usr \<mapsto> s1)\<rparr>))
              else if action = ''stand'' then
                (case dealer_draws (dealer s) (deck s) of
                   None \<Rightarrow> Threw st
                 | Some (dl, d) \<Rightarrow>
                     let pv = valueHand (player s); dv = valueHand dl;
                         pays = (if pv > 21 then None
                                 else if dv > 21 \<or> pv > dv then Some (bet s * 2)
                                 else if pv = dv then Some (bet s)
                                 else None);
                         cn' = cn\<lparr>bjStates := (bjStates cn)(usr := None)\<rparr>
                     in (case pays of
                           None \<Rightarrow> Done (st, cn')
                         | Some amt \<Rightarrow>
                             (case users st usr of
                                None \<Rightarrow> Threw st
                              | Some u \<Rightarrow>
                                  Done (st\<lparr>users := (users st)(usr \<mapsto> u\<lparr>balance := balance u + amt\<rparr>)\<rparr>,
                                        cn'))))
              else Done (st, cn)))"

section \<open>Giveaways\<close>

text \<open>
  The two commands of the \<^verbatim>\<open>chat\<close> handler. The sender is
  \<^verbatim>\<open>sockets[socket.id] || "guest"\<close>. \<open>amt\<close> is \<^verbatim>\<open>Number(parts[1])\<close> and \<open>now\<close>
  is \<^verbatim>\<open>Date.now()\<close>.
\<close>

definition sender :: "state \<Rightarrow> string \<Rightarrow> string" where
  "sender st sid = (case sockets st sid of None \<Rightarrow> ''guest'' | Some u \<Rightarrow> u)"

definition chat_giveaway :: "string \<Rightarrow> int \<Rightarrow> int \<Rightarrow> state \<Rightarrow> state outcome" where
  "chat_giveaway sid amt now st =
     (let frm = sender st sid in
      if amt \<le> 0 then Rejected ''Invalid giveaway amount''
      else
        (case users st frm of
           None \<Rightarrow> Rejected ''Not enough balance''
         | Some u \<Rightarrow>
             if balance u < amt then Rejected ''Not enough balance''
             else
               let g = \<lparr>gid = (if giveaways st = [] then 1 else gid (last (giveaways st)) + 1),
                        host = frm, amount = amt, entrants = [], createdAt = now\<rparr>
               in Done (st\<lparr>users := (users st)(frm \<mapsto> u\<lparr>balance := balance u - amt\<rparr>),
                            giveaways := giveaways st @ [g]\<rparr>)))"

text \<open>\<^verbatim>\<open>/enter\<close> reads \<^verbatim>\<open>giveaways[giveaways.length-1]\<close> and pushes onto its entrants.\<close>

definition chat_enter :: "string \<Rightarrow> state \<Rightarrow> state outcome" where
  "chat_enter sid st =
     (let frm = sender st sid; gs = giveaways st in
      if gs = [] then Rejected ''No active giveaway to enter''
      else
        let g = gs ! (length gs - 1) in
        if frm \<in> set (entrants g) then Rejected ''You already entered''
        else Done (st\<lparr>giveaways := gs[length gs - 1 := g\<lparr>entrants := entrants g @ [frm]\<rparr>]\<rparr>))"

text \<open>
  The interval callback. \<open>pick\<close> is \<^verbatim>\<open>Math.floor(Math.random()*g.entrants.length)\<close>,
  an index below the number of entrants; \<^verbatim>\<open>users[w]\<close> of an entrant that is no key
  of \<^verbatim>\<open>users\<close> is \<^verbatim>\<open>undefined\<close>, and reading its balance raises before
  \<^verbatim>\<open>giveaways.shift()\<close>.
\<close>

definition tick :: "int \<Rightarrow> nat \<Rightarrow> state \<Rightarrow> state outcome" where
  "tick now pick st =
     (case giveaways st of
        [] \<Rightarrow> Ignored
      | g # rest \<Rightarrow>
          if now - createdAt g > 45000 \<or> length (entrants g) \<ge> 5 then
            (if entrants g = [] then
               (case users st (host g) of
                  None \<Rightarrow> Threw st
                | Some u \<Rightarrow>
                    Done (st\<lparr>users := (users st)(host g \<mapsto> u\<lparr>balance := balance u + amount g\<rparr>),
                             giveaways := rest\<rparr>))
             else if pick < length (entrants g) then
               (case users st (entrants g ! pick) of
                  None \<Rightarrow> Threw st
                | Some u \<Rightarrow>
                    Done (st\<lparr>users := (users st)(entrants g ! pick \<mapsto>
                                         u\<lparr>balance := balance u + amount g\<rparr>),
                             giveaways := rest\<rparr>))
             else Threw st)
          else Done st)"

section \<open>Sending coins\<close>

text \<open>
  \<^verbatim>\<open>send_coins\<close>. The recipient test is \<^verbatim>\<open>!users[to]\<close> on a plain object, so
  besides the usernames the names every object inherits pass it; the sender is then
  debited, and the amount is added to a \<^verbatim>\<open>balance\<close> property of the inherited
  object, which is no entry of the ledger.
\<close>

definition proto_names :: "string list" where
  "proto_names =
     [''constructor'', ''__defineGetter__'', ''__defineSetter__'', ''hasOwnProperty'',
      ''__lookupGetter__'', ''__lookupSetter__'', ''isPrototypeOf'', ''propertyIsEnumerable'',
      ''toString'', ''valueOf'', ''__proto__'', ''toLocaleString'']"

definition send_coins :: "string \<Rightarrow> string \<Rightarrow> int \<Rightarrow> state \<Rightarrow> state outcome" where
  "send_coins sid to amt st =
     (case sockets st sid of
        None \<Rightarrow> Rejected ''Login required''
      | Some frm \<Rightarrow>
          if amt \<le> 0 then Rejected ''Invalid amount''
          else if users st to = None \<and> to \<notin> set proto_names then Rejected ''Recipient not found''
          else
            (case users st frm of
               None \<Rightarrow> Threw st
             | Some u \<Rightarrow>
                 if balance u < amt then Rejected ''Not enough funds''
                 else Done (st\<lparr>users := add_balance to amt (add_balance frm (- amt) (users st))\<rparr>)))"

section \<open>Poker hands\<close>

text \<open>
  A score of \<^verbatim>\<open>rankHand\<close> holds numbers and, where \<^verbatim>\<open>getKeyByValue\<close> or
  \<^verbatim>\<open>pairValues\<close> supplies an element, the keys of \<^verbatim>\<open>counts\<close>, which are strings
  (or \<^verbatim>\<open>null\<close>).
\<close>

datatype jsval = Num int | Str string | Null

fun rank_str :: "rank \<Rightarrow> string" where
  "rank_str R2 = ''2''"
| "rank_str R3 = ''3''"
| "rank_str R4 = ''4''"
| "rank_str R5 = ''5''"
| "rank_str R6 = ''6''"
| "rank_str R7 = ''7''"
| "rank_str R8 = ''8''"
| "rank_str R9 = ''9''"
| "rank_str R10 = ''10''"
| "rank_str RJ = ''J''"
| "rank_str RQ = ''Q''"
| "rank_str RK = ''K''"
| "rank_str RA = ''A''"

text \<open>The table \<^verbatim>\<open>order\<close> of \<^verbatim>\<open>rankHand\<close> (and \<^verbatim>\<open>map\<close> of \<^verbatim>\<open>pairValues\<close>).\<close>

fun order :: "rank \<Rightarrow> int" where
  "order R2 = 2"
| "order R3 = 3"
| "order R4 = 4"
| "order R5 = 5"
| "order R6 = 6"
| "order R7 = 7"
| "order R8 = 8"
| "order R9 = 9"
| "order R10 = 10"
| "order RJ = 11"
| "order RQ = 12"
| "order RK = 13"
| "order RA = 14"

text \<open>
  \<^verbatim>\<open>Array.prototype.sort\<close> with a comparator: stable, and an element \<open>x\<close> goes before
  \<open>y\<close> when \<open>cmp x y\<close> is negative. Modelled by the stable insertion sort.
\<close>

fun js_insert :: "('a \<Rightarrow> 'a \<Rightarrow> int) \<Rightarrow> 'a \<Rightarrow> 'a list \<Rightarrow> 'a list" where
  "js_insert cmp x [] = [x]"
| "js_insert cmp x (y # ys) = (if cmp x y \<le> 0 then x # y # ys else y # js_insert cmp x ys)"

definition js_sort :: "('a \<Rightarrow> 'a \<Rightarrow> int) \<Rightarrow> 'a list \<Rightarrow> 'a list" where
  "js_sort cmp xs = foldr (js_insert cmp) xs []"

text \<open>
  The keys of \<^verbatim>\<open>counts\<close> in the order \<^verbatim>\<open>for (k in obj)\<close> and
  \<^verbatim>\<open>Object.values\<close> enumerate them: the integer-like keys \<^verbatim>\<open>'2'\<close> to \<^verbatim>\<open>'10'\<close>
  ascending, then the other keys in the order of their first insertion.
\<close>

definition digit_ranks :: "rank list" where
  "digit_ranks = [R2, R3, R4, R5, R6, R7, R8, R9, R10]"

definition first_seen :: "'a list \<Rightarrow> 'a list" where
  "first_seen xs = rev (remdups (rev xs))"

definition count_keys :: "rank list \<Rightarrow> rank list" where
  "count_keys rs =
     filter (\<lambda>k. k \<in> set rs) digit_ranks @ first_seen (filter (\<lambda>k. k \<notin> set digit_ranks) rs)"

definition getKeyByValue :: "rank list \<Rightarrow> nat \<Rightarrow> jsval" where
  "getKeyByValue rs val =
     (case find (\<lambda>k. count_list rs k = val) (count_keys rs) of
        None \<Rightarrow> Null
      | Some k \<Rightarrow> Str (rank_str k))"

definition pairValues :: "rank list \<Rightarrow> jsval list" where
  "pairValues rs =
     map (\<lambda>k. Str (rank_str k))
       (js_sort (\<lambda>a b. order b - order a) (filter (\<lambda>k. count_list rs k = 2) (count_keys rs)))"

text \<open>\<^verbatim>\<open>freq[i] === n\<close>: false where \<^verbatim>\<open>freq[i]\<close> is \<^verbatim>\<open>undefined\<close>.\<close>

definition freq_is :: "nat list \<Rightarrow> nat \<Rightarrow> nat \<Rightarrow> bool" where
  "freq_is freq i n = (i < length freq \<and> freq ! i = n)"

record hand_rank =
  name :: string
  score :: "jsval list"
  vals :: "int list"

text \<open>
  \<^verbatim>\<open>rankHand\<close>, its local constants first: \<^verbatim>\<open>vals\<close>, \<^verbatim>\<open>isFlush\<close>,
  \<^verbatim>\<open>isStraight\<close> and \<^verbatim>\<open>freq\<close>. \<^verbatim>\<open>isStraight\<close> tests the size of the set of
  values first here: with five distinct values \<^verbatim>\<open>vals[0]\<close> and \<^verbatim>\<open>vals[4]\<close>
  exist, and without them the conjunction of the source is false as well.
\<close>

definition hand_vals :: "card list \<Rightarrow> int list" where
  "hand_vals hand = js_sort (\<lambda>a b. b - a) (map (\<lambda>c. order (card_r c)) hand)"

definition isFlush :: "card list \<Rightarrow> bool" where
  "isFlush hand = (length (remdups (map card_s hand)) = 1)"

definition isStraight :: "card list \<Rightarrow> bool" where
  "isStraight hand =
     (length (remdups (hand_vals hand)) = 5 \<and> hand_vals hand ! 0 - hand_vals hand ! 4 = 4)"

definition hand_freq :: "card list \<Rightarrow> nat list" where
  "hand_freq hand =
     js_sort (\<lambda>a b. int b - int a)
       (map (count_list (map card_r hand)) (count_keys (map card_r hand)))"

text \<open>The chain of tests that sets \<^verbatim>\<open>name\<close> and \<^verbatim>\<open>score\<close>.\<close>

definition name_score :: "card list \<Rightarrow> string \<times> jsval list" where
  "name_score hand =
     (let rs = map card_r hand; vs = hand_vals hand; freq = hand_freq hand in
      if isStraight hand \<and> isFlush hand then (''Straight Flush'', [Num 9, Num (vs ! 0)])
      else if freq_is freq 0 4 then (''Four of a Kind'', [Num 8, getKeyByValue rs 4])
      else if freq_is freq 0 3 \<and> freq_is freq 1 2 then (''Full House'', [Num 7, getKeyByValue rs 3])
      else if isFlush hand then (''Flush'', Num 6 # map Num vs)
      else if isStraight hand then (''Straight'', [Num 5, Num (vs ! 0)])
      else if freq_is freq 0 3 then (''Three of a Kind'', [Num 4, getKeyByValue rs 3])
      else if freq_is freq 0 2 \<and> freq_is freq 1 2 then (''Two Pair'', Num 3 # pairValues rs)
      else if freq_is freq 0 2 then (''One Pair'', [Num 2, getKeyByValue rs 2])
      else (''High Card'', Num 1 # map Num vs))"

definition rankHand :: "card list \<Rightarrow> hand_rank" where
  "rankHand hand =
     \<lparr>name = fst (name_score hand), score = snd (name_score hand), vals = hand_vals hand\<rparr>"

text \<open>
  \<^verbatim>\<open>compareRank\<close>. \<^verbatim>\<open>a.score[i]||0\<close> replaces \<^verbatim>\<open>undefined\<close>, \<^verbatim>\<open>null\<close>, 0 and
  the empty string by 0. \<^verbatim>\<open>>\<close> and \<^verbatim>\<open><\<close> compare two strings by their code
  units and anything else as numbers, a comparison with \<^verbatim>\<open>NaN\<close> being false. The
  strings of a score are rank names, whose conversion to a number is decimal for
  digits and \<^verbatim>\<open>NaN\<close> for a letter.
\<close>

fun or0 :: "jsval \<Rightarrow> jsval" where
  "or0 (Num n) = Num n"
| "or0 (Str s) = (if s = [] then Num 0 else Str s)"
| "or0 Null = Num 0"

fun str_less :: "string \<Rightarrow> string \<Rightarrow> bool" where
  "str_less [] [] = False"
| "str_less [] (y # ys) = True"
| "str_less (x # xs) [] = False"
| "str_less (x # xs) (y # ys) =
     (if (of_char x :: nat) < of_char y then True
      else if (of_char y :: nat) < of_char x then False
      else str_less xs ys)"

definition is_digit :: "char \<Rightarrow> bool" where
  "is_digit c = (48 \<le> (of_char c :: nat) \<and> (of_char c :: nat) \<le> 57)"

fun to_number :: "jsval \<Rightarrow> int option" where
  "to_number (Num n) = Some n"
| "to_number Null = Some 0"
| "to_number (Str s) =
     (if s \<noteq> [] \<and> list_all is_digit s
      then Some (foldl (\<lambda>n c. 10 * n + (int (of_char c) - 48)) 0 s)
      else None)"

fun js_less :: "jsval \<Rightarrow> jsval \<Rightarrow> bool" where
  "js_less (Str a) (Str b) = str_less a b"
| "js_less a b =
     (case to_number a of
        None \<Rightarrow> False
      | Some x \<Rightarrow> (case to_number b of None \<Rightarrow> False | Some y \<Rightarrow> x < y))"

definition cmp_step :: "jsval \<Rightarrow> jsval \<Rightarrow> int \<Rightarrow> int" where
  "cmp_step ai bi rest = (if js_less bi ai then 1 else if js_less ai bi then - 1 else rest)"

text \<open>The loop of \<^verbatim>\<open>compareRank\<close>, walking both scores from index 0.\<close>

fun score_loop :: "jsval list \<Rightarrow> jsval list \<Rightarrow> int" where
  "score_loop [] [] = 0"
| "score_loop (x # xs) [] = cmp_step (or0 x) (Num 0) (score_loop xs [])"
| "score_loop [] (y # ys) = cmp_step (Num 0) (or0 y) (score_loop [] ys)"
| "score_loop (x # xs) (y # ys) = cmp_step (or0 x) (or0 y) (score_loop xs ys)"

definition compareRank :: "hand_rank \<Rightarrow> hand_rank \<Rightarrow> int" where
  "compareRank a b = score_loop (score a) (score b)"

section \<open>The poker round\<close>

record result =
  r_user :: string
  r_hand :: "card list"
  r_rank :: hand_rank

text \<open>
  The dealing loop: five \<^verbatim>\<open>pop\<close>s for each participant. With fewer than five
  cards left the hand holds \<^verbatim>\<open>undefined\<close> and \<^verbatim>\<open>rankHand\<close> raises: \<open>None\<close>.
\<close>

fun deal :: "string list \<Rightarrow> card list \<Rightarrow> result list option" where
  "deal [] d = Some []"
| "deal (u # us) (c1 # c2 # c3 # c4 # c5 # d) =
     (case deal us d of
        None \<Rightarrow> None
      | Some rs \<Rightarrow>
          Some (\<lparr>r_user = u, r_hand = [c1, c2, c3, c4, c5],
                 r_rank = rankHand [c1, c2, c3, c4, c5]\<rparr> # rs))"
| "deal (u # us) d = None"

text \<open>
  \<^verbatim>\<open>poker_start\<close>. The filter over \<^verbatim>\<open>Object.keys(online)\<close> reads
  \<^verbatim>\<open>users[u].balance\<close> of every online name. The bets are taken and saved before
  the cards are dealt. There is no check of the sign of \<^verbatim>\<open>bet\<close>.
\<close>

definition participants_of :: "state \<Rightarrow> int \<Rightarrow> string list" where
  "participants_of st b =
     filter (\<lambda>u. case users st u of None \<Rightarrow> False | Some x \<Rightarrow> balance x \<ge> b) (map fst (online st))"

definition poker_start :: "string \<Rightarrow> int \<Rightarrow> card list \<Rightarrow> state \<Rightarrow> state outcome" where
  "poker_start sid b d st =
     (case sockets st sid of
        None \<Rightarrow> Rejected ''login required''
      | Some usr \<Rightarrow>
          (case users st usr of
             None \<Rightarrow> Rejected ''not enough funds''
           | Some u \<Rightarrow>
               if balance u < b then Rejected ''not enough funds''
               else if list_ex (\<lambda>n. users st n = None) (map fst (online st)) then Threw st
               else
                 let participants = participants_of st b in
                 if participants = [] then Rejected ''no players with enough funds.''
                 else
                   let st1 = st\<lparr>users := fold (\<lambda>n. add_balance n (- b)) participants (users st)\<rparr> in
                   (case deal participants d of
                      None \<Rightarrow> Threw st1
                    | Some results \<Rightarrow>
                        let sorted = js_sort (\<lambda>x y. compareRank (r_rank y) (r_rank x)) results;
                            winner = r_user (hd sorted)
                        in Done (st1\<lparr>users := add_balance winner (b * int (length participants))
                                                   (users st1)\<rparr>))))"

section \<open>Authentication and the seeded ledger\<close>

text \<open>
  \<^verbatim>\<open>online[username] = ...\<close> on the association list, in the order
  \<^verbatim>\<open>Object.keys\<close> enumerates: a key that is there keeps its place; a new key that
  is an array index (a decimal numeral without leading zero, at most
  \<open>2\<^sup>3\<^sup>2 - 2\<close>) goes among the array indices in ascending numeric order, ahead of
  every other key; any other new key goes last.
\<close>

definition index_value :: "string \<Rightarrow> nat" where
  "index_value k = foldl (\<lambda>n c. 10 * n + (of_char c - 48)) 0 k"

definition is_index :: "string \<Rightarrow> bool" where
  "is_index k =
     (k \<noteq> [] \<and> list_all is_digit k \<and> (if hd k = CHR ''0'' then k = ''0'' else True) \<and>
      index_value k \<le> 4294967294)"

fun put_new :: "string \<Rightarrow> string \<Rightarrow> (string \<times> string) list \<Rightarrow> (string \<times> string) list" where
  "put_new k v [] = [(k, v)]"
| "put_new k v ((k', v') # kvs) =
     (if is_index k \<and> (if is_index k' then index_value k < index_value k' else True)
      then (k, v) # (k', v') # kvs
      else (k', v') # put_new k v kvs)"

definition put :: "string \<Rightarrow> string \<Rightarrow> (string \<times> string) list \<Rightarrow> (string \<times> string) list" where
  "put k v kvs =
     (if k \<in> set (map fst kvs)
      then map (\<lambda>(k', v'). if k' = k then (k, v) else (k', v')) kvs
      else put_new k v kvs)"

text \<open>
  \<^verbatim>\<open>auth\<close> with a token that decodes to \<open>uname\<close>: a known user is bound to the
  socket and entered in \<^verbatim>\<open>online\<close>. Nothing keeps a user from signing in on
  several sockets: each is bound to the name, and \<^verbatim>\<open>online\<close> keeps the last.
  (The test is \<^verbatim>\<open>users[username]\<close> on a plain object; the names every object
  inherits, which would pass it without being users, are not signed in here.)
\<close>

definition auth :: "string \<Rightarrow> string \<Rightarrow> state \<Rightarrow> state outcome" where
  "auth sid uname st =
     (case users st uname of
        None \<Rightarrow> Ignored
      | Some _ \<Rightarrow> Done (st\<lparr>sockets := (sockets st)(sid \<mapsto> uname), online := put uname sid (online st)\<rparr>))"

text \<open>
  The ledger the server starts with when \<^verbatim>\<open>users.json\<close> is absent: \<^verbatim>\<open>alice\<close> and
  \<^verbatim>\<open>bob\<close> with 100 each (the hash stands for the value of \<^verbatim>\<open>bcrypt.hashSync\<close>).
\<close>

definition seeded :: state where
  "seeded =
     \<lparr>users = [''alice'' \<mapsto> \<lparr>username = ''alice'', passwordHash = ''hash'', balance = 100\<rparr>,
               ''bob'' \<mapsto> \<lparr>username = ''bob'', passwordHash = ''hash'', balance = 100\<rparr>],
      giveaways = [], sockets = Map.empty, online = []\<rparr>"

text \<open>Both seeded users signed in, \<^verbatim>\<open>alice\<close> on socket \<open>s1\<close> and \<^verbatim>\<open>bob\<close> on \<open>s2\<close>.\<close>

definition both_online :: state where
  "both_online =
     seeded\<lparr>sockets := [''s1'' \<mapsto> ''alice'', ''s2'' \<mapsto> ''bob''],
            online := [(''alice'', ''s1''), (''bob'', ''s2'')]\<rparr>"

text \<open>
  A ledger of users who signed up (\<^verbatim>\<open>/signup\<close> gives each a balance of 100) and are
  all online, the user \<open>n\<close> on the socket \<open>s-n\<close>.
\<close>

definition table_of :: "string list \<Rightarrow> state" where
  "table_of names =
     \<lparr>users = map_of (map (\<lambda>n. (n, \<lparr>username = n, passwordHash = ''hash'', balance = 100\<rparr>)) names),
      giveaways = [],
      sockets = map_of (map (\<lambda>n. (''s-'' @ n, n)) names),
      online = map (\<lambda>n. (n, ''s-'' @ n)) names\<rparr>"

definition crowd :: "string list" where
  "crowd = [''a'', ''b'', ''c'', ''d'', ''e'', ''f'', ''g'', ''h'', ''i'', ''j'', ''k'']"

text \<open>
  Two states of the giveaway queue: after \<^verbatim>\<open>alice\<close> opened a giveaway of 20 at time
  1000, and after \<^verbatim>\<open>bob\<close> opened one of 30 behind it at time 2000.
\<close>

definition one_open :: state where
  "one_open =
     both_online\<lparr>users := (users both_online)(''alice'' \<mapsto>
                    \<lparr>username = ''alice'', passwordHash = ''hash'', balance = 80\<rparr>),
                 giveaways := [\<lparr>gid = 1, host = ''alice'', amount = 20, entrants = [],
                                createdAt = 1000\<rparr>]\<rparr>"

definition two_open :: state where
  "two_open =
     one_open\<lparr>users := (users one_open)(''bob'' \<mapsto>
                 \<lparr>username = ''bob'', passwordHash = ''hash'', balance = 70\<rparr>),
              giveaways := giveaways one_open @
                 [\<lparr>gid = 2, host = ''bob'', amount = 30, entrants = [], createdAt = 2000\<rparr>]\<rparr>"

text \<open>
  What \<^verbatim>\<open>bj_start\<close> and the hits establish of a blackjack state before the
  \<^verbatim>\<open>stand\<close>: the 52 cards of the deck are in the deck and the two hands, the dealer
  holds two cards, and a hand that was not marked done is worth 21 or less.
\<close>

definition bj_wf :: "bjstate \<Rightarrow> bool" where
  "bj_wf s =
     (length (deck s) + length (player s) + length (dealer s) = 52 \<and>
      length (dealer s) = 2 \<and>
      (done_flag s \<or> valueHand (player s) \<le> 21))"

text \<open>A shuffled deck that starts at the five of clubs, and the state \<^verbatim>\<open>bj_start\<close> deals from it.\<close>

definition cut_deck :: "card list" where
  "cut_deck = drop 9 (rev unshuffled) @ take 9 (rev unshuffled)"

definition dealt :: bjstate where
  "dealt =
     \<lparr>deck = drop 4 cut_deck, player = take 2 cut_deck, dealer = take 2 (drop 2 cut_deck),
      bet = 10, done_flag = False, socketid = ''s1''\<rparr>"

definition staked :: state where
  "staked =
     both_online\<lparr>users := (users both_online)(''alice'' \<mapsto>
        \<lparr>username = ''alice'', passwordHash = ''hash'', balance = 90\<rparr>)\<rparr>"

section \<open>Comparing hands: what the code orders by, and what the specification describes\<close>

text \<open>The category of a hand is the number at the head of its score (1 High Card to 9 Straight Flush).\<close>

definition category :: "card list \<Rightarrow> int" where
  "category h = (case score (rankHand h) of Num c # _ \<Rightarrow> c | _ \<Rightarrow> 0)"

text \<open>Lexicographic comparison of two sequences of numbers, as a sign.\<close>

fun lex_compare :: "int list \<Rightarrow> int list \<Rightarrow> int" where
  "lex_compare [] [] = 0"
| "lex_compare [] (y # ys) = - 1"
| "lex_compare (x # xs) [] = 1"
| "lex_compare (x # xs) (y # ys) =
     (if y < x then 1 else if x < y then - 1 else lex_compare xs ys)"

text \<open>
  The ranks a hand holds more than once, with how often: \<open>repeats h r\<close> is the number
  of cards of rank \<open>r\<close> when there are two or more, and 0 otherwise.
\<close>

definition repeats :: "card list \<Rightarrow> rank \<Rightarrow> nat" where
  "repeats h r = (if 2 \<le> count_list (map card_r h) r then count_list (map card_r h) r else 0)"

text \<open>
  The tiebreak sequence in the words of the specification, for comparison with the
  code: the top card for a straight and a straight flush; all five values descending
  for a flush and a high card; for the categories with a pair, a triple or a quad the
  value of the repeated rank first (for Two Pair both pair values descending, for a
  full house the triple before the pair), then the remaining kickers descending.
\<close>

definition spec_tiebreak :: "card list \<Rightarrow> int list" where
  "spec_tiebreak h =
     (let vs = hand_vals h; c = category h;
          rep = (\<lambda>n. filter (\<lambda>v. count_list vs v = n) (remdups vs));
          kickers = filter (\<lambda>v. count_list vs v = 1) vs
      in if c = 9 \<or> c = 5 then take 1 vs
         else if c = 6 \<or> c = 1 then vs
         else if c = 8 then rep 4 @ kickers
         else if c = 7 then rep 3 @ rep 2
         else if c = 4 then rep 3 @ kickers
         else rep 2 @ kickers)"

definition spec_compare :: "card list \<Rightarrow> card list \<Rightarrow> int" where
  "spec_compare h1 h2 =
     (if category h1 < category h2 then - 1
      else if category h2 < category h1 then 1
      else lex_compare (spec_tiebreak h1) (spec_tiebreak h2))"

text \<open>Hands for the comparisons below.\<close>

definition mk :: "rank \<Rightarrow> suit \<Rightarrow> card" where
  "mk r s = \<lparr>card_r = r, card_s = s\<rparr>"

definition kings_ace :: "card list" where
  "kings_ace = [mk RK Spades, mk RK Hearts, mk RA Diamonds, mk R3 Clubs, mk R2 Spades]"

definition kings_queen :: "card list" where
  "kings_queen = [mk RK Diamonds, mk RK Clubs, mk RQ Spades, mk R3 Hearts, mk R2 Diamonds]"

definition nines :: "card list" where
  "nines = [mk R9 Spades, mk R9 Hearts, mk R4 Diamonds, mk R3 Clubs, mk R2 Spades]"

definition tens :: "card list" where
  "tens = [mk R10 Spades, mk R10 Hearts, mk R4 Clubs, mk R3 Diamonds, mk R2 Hearts]"

definition aces_up :: "card list" where
  "aces_up = [mk RA Spades, mk RA Hearts, mk RK Diamonds, mk RK Clubs, mk R2 Spades]"

definition threes_full :: "card list" where
  "threes_full = [mk R3 Spades, mk R3 Hearts, mk R3 Diamonds, mk R9 Clubs, mk R9 Spades]"

definition royal :: "card list" where
  "royal = [mk R10 Spades, mk RJ Spades, mk RQ Spades, mk RK Spades, mk RA Spades]"

definition ace_high :: "card list" where
  "ace_high = [mk RA Hearts, mk RJ Spades, mk R9 Spades, mk R5 Clubs, mk R2 Diamonds]"

definition king_high :: "card list" where
  "king_high = [mk RK Hearts, mk RQ Spades, mk R9 Diamonds, mk R5 Hearts, mk R3 Diamonds]"

definition straight_9 :: "card list" where
  "straight_9 = [mk R5 Hearts, mk R6 Spades, mk R7 Diamonds, mk R8 Hearts, mk R9 Diamonds]"

definition straight_8 :: "card list" where
  "straight_8 = [mk R4 Hearts, mk R5 Spades, mk R6 Diamonds, mk R7 Hearts, mk R8 Diamonds]"

text \<open>The invariant of the ledger: no balance is negative.\<close>

definition solvent :: "state \<Rightarrow> bool" where
  "solvent st = (\<forall>n v. balance_of st n = Some v \<longrightarrow> 0 \<le> v)"

section \<open>Properties of the trade handshake\<close>

lemma both_online_reached:
  "and_then (auth ''s1'' ''alice'' seeded) (auth ''s2'' ''bob'') = Done both_online"
  by (simp add: auth_def put_def is_index_def is_digit_def seeded_def both_online_def)

lemma trade_accept_unknown: "trades cn i = None \<Longrightarrow> trade_accept i cn = Ignored"
  by (simp add: trade_accept_def)

lemma trade_accept_not_pending:
  "trades cn i = Some t \<Longrightarrow> status t \<noteq> Pending \<Longrightarrow> trade_accept i cn = Ignored"
  by (simp add: trade_accept_def)

lemma trade_accept_pending:
  "trades cn i = Some t \<Longrightarrow> status t = Pending \<Longrightarrow>
   \<exists>cn'. trade_accept i cn = Done cn' \<and> map_option status (trades cn' i) = Some Accepted"
  by (simp add: trade_accept_def)

lemma trade_decline_unknown: "trades cn i = None \<Longrightarrow> trade_decline i cn = Ignored"
  by (simp add: trade_decline_def)

lemma trade_decline_any_status:
  "trades cn i = Some t \<Longrightarrow>
   \<exists>cn'. trade_decline i cn = Done cn' \<and> map_option status (trades cn' i) = Some Declined"
  by (simp add: trade_decline_def)

text \<open>
  C9 (the code departs from the claim). The claim: accept and decline change nothing
  unless the trade is pending, so a decline after an accept leaves the trade
  accepted. \<^verbatim>\<open>trade_accept\<close> tests \<^verbatim>\<open>t.status !== "pending"\<close>; \<^verbatim>\<open>trade_decline\<close>
  has no such test. Here \<^verbatim>\<open>alice\<close> asks \<^verbatim>\<open>bob\<close> for a trade on her connection,
  the trade is accepted there and then declined: the accept leaves it accepted, a
  second accept is ignored, and the decline turns the accepted trade into a declined
  one.
\<close>

theorem trade_decline_overrides_accept:
  "(case trade_start ''s1'' ''bob'' (both_online, new_conn) of
      Done (st, cn) \<Rightarrow>
        (case trade_accept 1 cn of
           Done cn1 \<Rightarrow>
             map_option status (trades cn 1) = Some Pending \<and>
             map_option status (trades cn1 1) = Some Accepted \<and>
             trade_accept 1 cn1 = Ignored \<and>
             (case trade_decline 1 cn1 of
                Done cn2 \<Rightarrow> map_option status (trades cn2 1) = Some Declined
              | _ \<Rightarrow> False)
         | _ \<Rightarrow> False)
    | _ \<Rightarrow> False)"
  by (simp add: trade_start_def trade_accept_def trade_decline_def both_online_def seeded_def
      new_conn_def)

section \<open>Evaluating the handlers\<close>

lemmas eval_defs =
  poker_start_def participants_of_def both_online_def seeded_def unshuffled_def ranks_def
  suits_def rankHand_def name_score_def hand_vals_def isFlush_def isStraight_def
  hand_freq_def js_sort_def compareRank_def Let_def add_balance_def balance_of_def
  freq_is_def count_keys_def digit_ranks_def first_seen_def cmp_step_def getKeyByValue_def
  pairValues_def bj_start_def bj_action_def new_conn_def valueHand_def value_step_def
  chat_giveaway_def chat_enter_def tick_def sender_def table_of_def crowd_def

section \<open>Properties of blackjack\<close>

lemma bj_start_login_required:
  "sockets st sid = None \<Longrightarrow> bj_start sid b d (st, cn) = Rejected ''login required''"
  by (simp add: bj_start_def)

lemma bj_start_insufficient:
  "sockets st sid = Some usr \<Longrightarrow> users st usr = Some u \<Longrightarrow> balance u < b \<Longrightarrow>
   bj_start sid b d (st, cn) = Rejected ''not enough funds''"
  by (simp add: bj_start_def)

lemma bj_start_deals:
  assumes "sockets st sid = Some usr" "users st usr = Some u" "b \<le> balance u" "length d = 52"
  shows "\<exists>p1 p2 d1 d2 rest.
           d = p1 # p2 # d1 # d2 # rest \<and>
           bj_start sid b d (st, cn) =
             Done (st\<lparr>users := (users st)(usr \<mapsto> u\<lparr>balance := balance u - b\<rparr>)\<rparr>,
                   cn\<lparr>bjStates := (bjStates cn)(usr \<mapsto>
                     \<lparr>deck = rest, player = [p1, p2], dealer = [d1, d2], bet = b,
                      done_flag = False, socketid = sid\<rparr>)\<rparr>)"
proof -
  from assms(4) obtain p1 p2 d1 d2 rest where "d = p1 # p2 # d1 # d2 # rest"
    by (cases d; simp; rename_tac a l1; case_tac l1; simp; rename_tac b l2; case_tac l2; simp;
        rename_tac c l3; case_tac l3; simp)
  with assms(1-3) show ?thesis
    by (simp add: bj_start_def)
qed

text \<open>
  C7 (the code departs from the claim). The claim: \<^verbatim>\<open>blackjackStart\<close> fails with
  InvalidAmount when the bet is 0 or less. \<^verbatim>\<open>bj_start\<close> has no test of the sign
  (the \<^verbatim>\<open>amt<=0\<close> test of \<^verbatim>\<open>send_coins\<close> and of \<^verbatim>\<open>/giveaway\<close> is missing): with
  a bet of -5 \<^verbatim>\<open>alice\<close>, who holds 100, is dealt a hand and her balance becomes 105,
  and a bet of 0 is dealt a hand as well.
\<close>

theorem bj_start_accepts_negative_bet:
  "(case bj_start ''s1'' (- 5) (rev unshuffled) (both_online, new_conn) of
      Done (st, cn) \<Rightarrow>
        balance_of st ''alice'' = Some 105 \<and>
        map_option bet (bjStates cn ''alice'') = Some (- 5) \<and>
        map_option player (bjStates cn ''alice'') =
          Some [\<lparr>card_r = RA, card_s = Clubs\<rparr>, \<lparr>card_r = RK, card_s = Clubs\<rparr>]
    | _ \<Rightarrow> False) \<and>
   (case bj_start ''s1'' 0 (rev unshuffled) (both_online, new_conn) of
      Done (st, cn) \<Rightarrow>
        balance_of st ''alice'' = Some 100 \<and> map_option bet (bjStates cn ''alice'') = Some 0
    | _ \<Rightarrow> False)"
  by (simp add: eval_defs)

text \<open>
  C8 (the code departs from the claim). The claim: a hit that takes the hand over 21
  settles and destroys the state, and no later hit or stand changes any hand. The
  bust branch of \<^verbatim>\<open>bj_action\<close> sets \<^verbatim>\<open>s.done\<close> and nothing else: the state stays
  in \<^verbatim>\<open>bjStates\<close> and \<^verbatim>\<open>done\<close> is never read. Here \<^verbatim>\<open>alice\<close> bets 10, is dealt
  the ace and king of clubs, hits twice (the ten, then the nine: 30, bust), and hits
  again: the state is still there, marked done, and the third hit puts the eight of
  clubs into her hand.
\<close>

theorem hit_after_bust_still_draws:
  "(case and_then (and_then (bj_start ''s1'' 10 (rev unshuffled) (both_online, new_conn))
                            (bj_action ''s1'' ''hit''))
                  (bj_action ''s1'' ''hit'') of
      Done (st, cn) \<Rightarrow>
        (case bjStates cn ''alice'' of
           Some s \<Rightarrow>
             done_flag s \<and> valueHand (player s) = 30 \<and> length (player s) = 4 \<and>
             (case bj_action ''s1'' ''hit'' (st, cn) of
                Done (st', cn') \<Rightarrow>
                  (case bjStates cn' ''alice'' of
                     Some s' \<Rightarrow> player s' = player s @ [\<lparr>card_r = R8, card_s = Clubs\<rparr>]
                   | None \<Rightarrow> False)
              | _ \<Rightarrow> False)
         | None \<Rightarrow> False)
    | _ \<Rightarrow> False)"
  by (simp add: eval_defs)

section \<open>Properties of the poker round\<close>

text \<open>
  C1 (the code departs from the claim). The claim: no operation leaves a balance
  negative, \<^verbatim>\<open>pokerStart\<close> and \<^verbatim>\<open>blackjackStart\<close> included, whatever the bet.
  \<^verbatim>\<open>poker_start\<close> has no test of the sign of the bet: with a bet of -200 both seeded
  users (100 each) pass \<^verbatim>\<open>balance >= bet\<close>, each is "debited" -200 and holds 300,
  and the winner is credited \<^verbatim>\<open>bet * 2 = -400\<close>: \<^verbatim>\<open>alice\<close> ends at -100.
\<close>

theorem poker_start_negative_balance:
  "(case poker_start ''s1'' (- 200) (rev unshuffled) both_online of
      Done st \<Rightarrow> balance_of st ''alice'' = Some (- 100) \<and> balance_of st ''bob'' = Some 300
    | _ \<Rightarrow> False)"
  by (simp add: eval_defs)

text \<open>
  C2 (the code departs from the claim). The claim: whenever there are eligible
  participants, each is debited the bet and the whole pot goes to the front of the
  sorted results. A deck has 52 cards and a hand takes five: with eleven eligible
  users online the eleventh hand holds \<^verbatim>\<open>undefined\<close>, \<^verbatim>\<open>rankHand\<close> raises, and
  the bets, taken and saved before the deal, are never paid out. Here eleven users
  with 100 each are online and one of them starts a round with a bet of 10: the
  handler raises and leaves everyone at 90.
\<close>

theorem poker_start_eleven_players:
  "(case poker_start ''s-a'' 10 (rev unshuffled) (table_of crowd) of
      Threw st \<Rightarrow> list_all (\<lambda>n. balance_of st n = Some 90) crowd
    | _ \<Rightarrow> False)"
  by (simp add: eval_defs)

section \<open>Properties of the giveaways\<close>

lemma last_index: "gs \<noteq> [] \<Longrightarrow> gs ! (length gs - Suc 0) = last gs"
  by (simp add: last_conv_nth)

lemma update_last: "gs \<noteq> [] \<Longrightarrow> gs[length gs - Suc 0 := x] = butlast gs @ [x]"
  by (cases gs rule: rev_cases) simp_all

text \<open>
  C3 (the code departs from the claim). The claim: a tick that closes the head
  credits one entrant and removes the giveaway. \<^verbatim>\<open>/enter\<close> does not ask for a
  login (\<^verbatim>\<open>/giveaway\<close>, one branch above, tests \<^verbatim>\<open>!users[from]\<close>), so the name
  \<^verbatim>\<open>guest\<close> becomes an entrant, and the tick that draws it reads
  \<^verbatim>\<open>users["guest"].balance\<close> and raises before \<^verbatim>\<open>giveaways.shift()\<close>. Here
  \<^verbatim>\<open>alice\<close> opens a giveaway of 20 at time 1000, a connection that never signed in
  enters, and the tick at time 50000 raises: the giveaway stays at the head with its
  entrant, and the 20 are neither awarded nor refunded.
\<close>

theorem tick_raises_on_guest:
  "(case and_then (chat_giveaway ''s1'' 20 1000 both_online) (chat_enter ''s9'') of
      Done st \<Rightarrow>
        tick 50000 0 st = Threw st \<and>
        map entrants (giveaways st) = [[''guest'']] \<and>
        balance_of st ''alice'' = Some 80
    | _ \<Rightarrow> False)"
  by (simp add: eval_defs)

lemma one_open_reached: "chat_giveaway ''s1'' 20 1000 both_online = Done one_open"
  by (simp add: chat_giveaway_def sender_def one_open_def both_online_def seeded_def Let_def)

lemma two_open_reached: "chat_giveaway ''s2'' 30 2000 one_open = Done two_open"
  by (simp add: chat_giveaway_def sender_def two_open_def one_open_def both_online_def seeded_def Let_def)

text \<open>
  C6 as stated fails: \<^verbatim>\<open>/enter\<close> does not apply to the head of the queue. With two
  giveaways open, \<^verbatim>\<open>bob\<close>'s \<^verbatim>\<open>/enter\<close> leaves the head (the one the scheduler
  looks at) without entrants and puts him into the giveaway opened last.
\<close>

theorem enter_misses_head:
  "(case chat_enter ''s2'' two_open of
      Done st \<Rightarrow>
        map gid (giveaways st) = [1, 2] \<and> map entrants (giveaways st) = [[], [''bob'']]
    | _ \<Rightarrow> False)"
  by (simp add: chat_enter_def sender_def two_open_def one_open_def both_online_def seeded_def Let_def)

text \<open>
  C6, amended: \<^verbatim>\<open>/enter\<close> applies to the giveaway opened last (the tail of the
  queue, the one the opening message invites to). With an empty queue it is rejected
  with "No active giveaway to enter"; when the sender is already among the entrants of
  that giveaway it is rejected with "You already entered", and a rejection changes
  nothing; otherwise the sender is appended to the entrants of that giveaway, and
  neither the giveaways before it nor anything else of the state changes.
\<close>

theorem enter_applies_to_newest:
  "chat_enter sid st =
     (if giveaways st = [] then Rejected ''No active giveaway to enter''
      else if sender st sid \<in> set (entrants (last (giveaways st)))
      then Rejected ''You already entered''
      else Done (st\<lparr>giveaways := butlast (giveaways st) @
                  [(last (giveaways st))\<lparr>entrants :=
                     entrants (last (giveaways st)) @ [sender st sid]\<rparr>]\<rparr>))"
  by (simp add: chat_enter_def Let_def last_index update_last)

text \<open>
  C10: on a connection that never signed in (no entry in \<^verbatim>\<open>sockets\<close>), with a
  giveaway open and the name \<^verbatim>\<open>guest\<close> not among the entrants of the giveaway
  \<^verbatim>\<open>/enter\<close> applies to (the one opened last), the entry is not rejected: the name
  \<^verbatim>\<open>guest\<close> is appended to the entrants of that giveaway, whether or not the ledger
  has a user of that name.
\<close>

theorem guest_enters:
  assumes "sockets st sid = None"
    and "giveaways st \<noteq> []"
    and "''guest'' \<notin> set (entrants (last (giveaways st)))"
  shows "chat_enter sid st =
     Done (st\<lparr>giveaways := butlast (giveaways st) @
             [(last (giveaways st))\<lparr>entrants := entrants (last (giveaways st)) @ [''guest'']\<rparr>]\<rparr>)"
  using assms by (simp add: chat_enter_def sender_def Let_def last_index update_last)

theorem guest_enters_witness:
  "sockets one_open ''s9'' = None \<and> giveaways one_open \<noteq> [] \<and>
   ''guest'' \<notin> set (entrants (last (giveaways one_open))) \<and>
   users one_open ''guest'' = None \<and>
   chat_enter ''s9'' one_open =
     Done (one_open\<lparr>giveaways :=
       [\<lparr>gid = 1, host = ''alice'', amount = 20, entrants = [''guest''], createdAt = 1000\<rparr>]\<rparr>)"
proof -
  have h1: "sockets one_open ''s9'' = None"
    by (simp add: one_open_def both_online_def seeded_def)
  have h2: "giveaways one_open \<noteq> []"
    by (simp add: one_open_def)
  have h3: "''guest'' \<notin> set (entrants (last (giveaways one_open)))"
    by (simp add: one_open_def)
  have h4: "users one_open ''guest'' = None"
    by (simp add: one_open_def both_online_def seeded_def)
  show ?thesis
    using h1 h2 h3 h4 guest_enters [OF h1 h2 h3]
    by (simp add: one_open_def)
qed

section \<open>The value of a hand and the stand\<close>

lemma fold_value_step:
  "fold value_step h (t, a) =
     (t + sum_list (map (\<lambda>c. points (card_r c)) h), a + length (filter (\<lambda>c. card_r c = RA) h))"
  by (induction h arbitrary: t a) (simp_all add: value_step_def)

lemma soften_lower: "tot - 10 * int a \<le> soften tot a"
proof (induction a arbitrary: tot)
  case 0
  show ?case by simp
next
  case (Suc a)
  from Suc.IH [of "tot - 10"] show ?case by simp
qed

lemma hard_total_lower:
  "int (length h) \<le>
     sum_list (map (\<lambda>c. points (card_r c)) h) - 10 * int (length (filter (\<lambda>c. card_r c = RA) h))"
proof (induction h)
  case Nil
  show ?case by simp
next
  case (Cons c h)
  have "1 \<le> points (card_r c) - (if card_r c = RA then 10 else 0)"
    by (cases "card_r c") simp_all
  with Cons show ?case by (cases "card_r c = RA") simp_all
qed

lemma valueHand_lower: "int (length h) \<le> valueHand h"
proof -
  have "valueHand h =
      soften (sum_list (map (\<lambda>c. points (card_r c)) h)) (length (filter (\<lambda>c. card_r c = RA) h))"
    by (simp add: valueHand_def fold_value_step)
  with soften_lower [of "sum_list (map (\<lambda>c. points (card_r c)) h)"
      "length (filter (\<lambda>c. card_r c = RA) h)"] hard_total_lower [of h]
  show ?thesis by linarith
qed

text \<open>
  The value of a hand: with every ace counted 1 the hand has its hard total; as many
  aces as fit under 21 (and there are) count 10 more.
\<close>

lemma soften_value:
  "soften (hard + 10 * int a) a = hard + 10 * int (min a (nat ((21 - hard) div 10)))"
proof (induction a)
  case 0
  show ?case by simp
next
  case (Suc a)
  show ?case
  proof (cases "21 < hard + 10 * int (Suc a)")
    case True
    then have "(21 - hard) div 10 < int (Suc a)" by arith
    then have "min (Suc a) (nat ((21 - hard) div 10)) = min a (nat ((21 - hard) div 10))"
      by arith
    moreover have "soften (hard + 10 * int (Suc a)) (Suc a) = soften (hard + 10 * int a) a"
      using True by simp
    ultimately show ?thesis using Suc by simp
  next
    case False
    then have "int (Suc a) \<le> (21 - hard) div 10" by arith
    then have "min (Suc a) (nat ((21 - hard) div 10)) = Suc a" by arith
    with False show ?thesis by simp
  qed
qed

lemma valueHand_value:
  "valueHand h =
     (let aces = length (filter (\<lambda>c. card_r c = RA) h);
          hard = sum_list (map (\<lambda>c. if card_r c = RA then 1 else points (card_r c)) h)
      in hard + 10 * int (min aces (nat ((21 - hard) div 10))))"
proof -
  let ?a = "length (filter (\<lambda>c. card_r c = RA) h)"
  let ?hard = "sum_list (map (\<lambda>c. if card_r c = RA then 1 else points (card_r c)) h)"
  have "sum_list (map (\<lambda>c. points (card_r c)) h) = ?hard + 10 * int ?a"
    by (induction h) simp_all
  then have "valueHand h = soften (?hard + 10 * int ?a) ?a"
    by (simp add: valueHand_def fold_value_step)
  then show ?thesis by (simp add: soften_value Let_def)
qed

lemma valueHand_examples:
  "valueHand [\<lparr>card_r = RA, card_s = Spades\<rparr>, \<lparr>card_r = RK, card_s = Hearts\<rparr>] = 21"
  "valueHand [\<lparr>card_r = RA, card_s = Spades\<rparr>, \<lparr>card_r = RA, card_s = Hearts\<rparr>] = 12"
  "valueHand [\<lparr>card_r = R10, card_s = Spades\<rparr>, \<lparr>card_r = R9, card_s = Hearts\<rparr>,
              \<lparr>card_r = R5, card_s = Clubs\<rparr>] = 24"
  "valueHand [\<lparr>card_r = RA, card_s = Spades\<rparr>, \<lparr>card_r = R5, card_s = Hearts\<rparr>,
              \<lparr>card_r = RK, card_s = Clubs\<rparr>] = 16"
  "valueHand [\<lparr>card_r = RA, card_s = Spades\<rparr>, \<lparr>card_r = R6, card_s = Hearts\<rparr>] = 17"
  by (simp_all add: valueHand_def value_step_def)

lemma two_cards_at_most_21: "valueHand [c1, c2] \<le> 21"
  by (cases "card_r c1"; cases "card_r c2"; simp add: valueHand_def value_step_def)

lemma dealer_draws_result:
  "dealer_draws dl d = Some (dl', d') \<Longrightarrow>
   \<exists>k\<le>length d. dl' = dl @ take k d \<and> d' = drop k d \<and> 17 \<le> valueHand dl' \<and>
     (\<forall>j<k. valueHand (dl @ take j d) < 17)"
proof (induction d arbitrary: dl)
  case Nil
  then show ?case by (simp split: if_splits)
next
  case (Cons c d)
  show ?case
  proof (cases "valueHand dl < 17")
    case False
    with Cons.prems have "dl' = dl" "d' = c # d" by simp_all
    with False show ?thesis by (intro exI [of _ 0]) simp
  next
    case True
    with Cons.prems have "dealer_draws (dl @ [c]) d = Some (dl', d')" by simp
    from Cons.IH [OF this] obtain k where k: "k \<le> length d" "dl' = (dl @ [c]) @ take k d"
      "d' = drop k d" "17 \<le> valueHand dl'" "\<forall>j<k. valueHand ((dl @ [c]) @ take j d) < 17"
      by blast
    have "\<forall>j<Suc k. valueHand (dl @ take j (c # d)) < 17"
    proof (intro allI impI)
      fix j assume "j < Suc k"
      show "valueHand (dl @ take j (c # d)) < 17"
      proof (cases j)
        case 0 with True show ?thesis by simp
      next
        case (Suc i)
        with \<open>j < Suc k\<close> k(5) show ?thesis by simp
      qed
    qed
    with k show ?thesis by (intro exI [of _ "Suc k"]) simp
  qed
qed

lemma dealer_draws_succeeds:
  "17 \<le> length dl + length d \<Longrightarrow> dealer_draws dl d \<noteq> None"
proof (induction d arbitrary: dl)
  case Nil
  with valueHand_lower [of dl] show ?case by simp
next
  case (Cons c d)
  then show ?case by simp
qed

lemma live_hand_size:
  assumes "bj_wf s" "\<not> done_flag s"
  shows "length (player s) \<le> 21" "29 \<le> length (deck s)"
proof -
  from assms have "valueHand (player s) \<le> 21" by (simp add: bj_wf_def)
  with valueHand_lower [of "player s"] show "length (player s) \<le> 21" by simp
  with assms(1) show "29 \<le> length (deck s)" by (simp add: bj_wf_def)
qed

lemma bj_start_wf:
  assumes "length d = 52" "bj_start sid b d (st, cn) = Done (st', cn')" "sockets st sid = Some usr"
  shows "\<exists>s. bjStates cn' usr = Some s \<and> bj_wf s \<and> \<not> done_flag s \<and> bet s = b"
  using assms
  by (auto simp: bj_start_def bj_wf_def two_cards_at_most_21 Let_def
      split: option.splits if_splits list.splits)

lemma hit_keeps_wf:
  assumes "sockets st sid = Some usr" "bjStates cn usr = Some s" "bj_wf s"
    and "bj_action sid ''hit'' (st, cn) = Done (st', cn')"
  shows "st' = st \<and> (\<exists>s'. bjStates cn' usr = Some s' \<and> bj_wf s' \<and> bet s' = bet s)"
  using assms
  by (auto simp: bj_action_def bj_wf_def Let_def split: list.splits if_splits)

lemma live_hit_never_raises:
  assumes "sockets st sid = Some usr" "bjStates cn usr = Some s" "bj_wf s" "\<not> done_flag s"
  shows "\<exists>st' cn'. bj_action sid ''hit'' (st, cn) = Done (st', cn')"
proof -
  from live_hand_size(2) [OF assms(3,4)] obtain c d where "deck s = c # d"
    by (cases "deck s") auto
  with assms(1,2) show ?thesis by (simp add: bj_action_def Let_def)
qed

text \<open>
  The \<^verbatim>\<open>stand\<close> on one connection, for a bet that is a number and a state that
  \<^verbatim>\<open>bj_start\<close> and the hits left not marked done (so worth 21 or less, with the
  rest of the 52 cards in its deck). The dealer is dealt the next \<open>k\<close> cards of the
  deck, where \<open>k\<close> is the first count at which the dealer's hand is worth 17 or more
  (there is no other test, so a soft 17 stands); the player is credited twice the bet
  when the dealer is over 21 or the player's value is above the dealer's, the bet
  when the values are equal, and nothing otherwise; and the state is deleted from the
  \<^verbatim>\<open>bjStates\<close> of this connection.
\<close>

lemma stand_settles:
  assumes "sockets st sid = Some usr"
    and "users st usr = Some u"
    and "bjStates cn usr = Some s"
    and "bj_wf s"
    and "\<not> done_flag s"
  shows "\<exists>k dl st' cn'.
      k \<le> length (deck s) \<and> dl = dealer s @ take k (deck s) \<and>
      17 \<le> valueHand dl \<and> (\<forall>j<k. valueHand (dealer s @ take j (deck s)) < 17) \<and>
      bj_action sid ''stand'' (st, cn) = Done (st', cn') \<and>
      bjStates cn' usr = None \<and>
      cn' = cn\<lparr>bjStates := (bjStates cn)(usr := None)\<rparr> \<and>
      st' = st\<lparr>users := (users st)(usr \<mapsto> u\<lparr>balance := balance u +
              (if 21 < valueHand dl \<or> valueHand dl < valueHand (player s) then bet s * 2
               else if valueHand (player s) = valueHand dl then bet s
               else 0)\<rparr>)\<rparr>"
proof -
  from live_hand_size [OF assms(4,5)] assms(4)
  have "17 \<le> length (dealer s) + length (deck s)" by (simp add: bj_wf_def)
  from dealer_draws_succeeds [OF this] obtain dl d
    where dd: "dealer_draws (dealer s) (deck s) = Some (dl, d)" by auto
  from dealer_draws_result [OF dd] obtain k where k: "k \<le> length (deck s)"
    "dl = dealer s @ take k (deck s)" "17 \<le> valueHand dl"
    "\<forall>j<k. valueHand (dealer s @ take j (deck s)) < 17" by blast
  from assms(4,5) have pv: "valueHand (player s) \<le> 21" by (simp add: bj_wf_def)
  have same: "st\<lparr>users := (users st)(usr \<mapsto> u\<lparr>balance := balance u + 0\<rparr>)\<rparr> = st"
    using assms(2) by (simp add: fun_upd_idem)
  have "bj_action sid ''stand'' (st, cn) =
      Done (st\<lparr>users := (users st)(usr \<mapsto> u\<lparr>balance := balance u +
              (if 21 < valueHand dl \<or> valueHand dl < valueHand (player s) then bet s * 2
               else if valueHand (player s) = valueHand dl then bet s
               else 0)\<rparr>)\<rparr>,
            cn\<lparr>bjStates := (bjStates cn)(usr := None)\<rparr>)"
    using assms(1-3) dd pv same by (simp add: bj_action_def Let_def)
  with k show ?thesis by auto
qed

lemma dealt_reached:
  "bj_start ''s1'' 10 cut_deck (both_online, new_conn) =
     Done (staked, new_conn\<lparr>bjStates := [''alice'' \<mapsto> dealt]\<rparr>)"
  by (simp add: bj_start_def both_online_def seeded_def new_conn_def dealt_def staked_def
      cut_deck_def unshuffled_def ranks_def suits_def)

lemma stand_settles_example:
  "sockets staked ''s1'' = Some ''alice'' \<and>
   users staked ''alice'' = Some \<lparr>username = ''alice'', passwordHash = ''hash'', balance = 90\<rparr> \<and>
   bjStates (new_conn\<lparr>bjStates := [''alice'' \<mapsto> dealt]\<rparr>) ''alice'' = Some dealt \<and>
   bj_wf dealt \<and> \<not> done_flag dealt \<and>
   (case bj_action ''s1'' ''stand'' (staked, new_conn\<lparr>bjStates := [''alice'' \<mapsto> dealt]\<rparr>) of
      Done (st', cn') \<Rightarrow> balance_of st' ''alice'' = Some 110 \<and> bjStates cn' ''alice'' = None
    | _ \<Rightarrow> False)"
proof -
  let ?u = "\<lparr>username = ''alice'', passwordHash = ''hash'', balance = 90\<rparr>"
  let ?cn = "new_conn\<lparr>bjStates := [''alice'' \<mapsto> dealt]\<rparr>"
  have h1: "sockets staked ''s1'' = Some ''alice''"
    by (simp add: staked_def both_online_def seeded_def)
  have h2: "users staked ''alice'' = Some ?u"
    by (simp add: staked_def)
  have h3: "bjStates ?cn ''alice'' = Some dealt"
    by simp
  have h4: "bj_wf dealt"
    by (simp add: bj_wf_def dealt_def cut_deck_def unshuffled_def ranks_def suits_def
        valueHand_def value_step_def)
  have h5: "\<not> done_flag dealt"
    by (simp add: dealt_def)
  have ev: "(case bj_action ''s1'' ''stand'' (staked, ?cn) of
      Done (st', cn') \<Rightarrow> balance_of st' ''alice'' = Some 110 \<and> bjStates cn' ''alice'' = None
    | _ \<Rightarrow> False)"
    using stand_settles [OF h1 h2 h3 h4 h5]
    by (simp add: bj_action_def staked_def both_online_def seeded_def new_conn_def dealt_def
        cut_deck_def unshuffled_def ranks_def suits_def valueHand_def value_step_def
        balance_of_def Let_def)
  from h1 h2 h3 h4 h5 ev show ?thesis by blast
qed

section \<open>Properties of the hand comparison\<close>

lemmas hand_defs =
  mk_def kings_ace_def kings_queen_def nines_def tens_def aces_up_def threes_full_def
  royal_def ace_high_def king_high_def straight_9_def straight_8_def

subsection \<open>The sort\<close>

lemma set_js_insert: "set (js_insert cmp x ys) = insert x (set ys)"
  by (induction ys) auto

lemma length_js_insert: "length (js_insert cmp x ys) = Suc (length ys)"
  by (induction ys) auto

lemma set_js_sort: "set (js_sort cmp xs) = set xs"
  by (induction xs) (simp_all add: js_sort_def set_js_insert)

lemma length_js_sort: "length (js_sort cmp xs) = length xs"
  by (induction xs) (simp_all add: js_sort_def length_js_insert)

lemma filter_js_insert:
  "length (filter P (js_insert cmp x ys)) = length (filter P (x # ys))"
  by (induction ys) auto

lemma filter_js_sort: "length (filter P (js_sort cmp xs)) = length (filter P xs)"
proof (induction xs)
  case Nil
  show ?case by (simp add: js_sort_def)
next
  case (Cons x xs)
  have "js_sort cmp (x # xs) = js_insert cmp x (js_sort cmp xs)"
    by (simp add: js_sort_def)
  with Cons show ?case by (simp add: filter_js_insert)
qed

lemma distinct_js_insert: "distinct ys \<Longrightarrow> x \<notin> set ys \<Longrightarrow> distinct (js_insert cmp x ys)"
  by (induction ys) (auto simp: set_js_insert)

lemma distinct_js_sort: "distinct xs \<Longrightarrow> distinct (js_sort cmp xs)"
proof (induction xs)
  case Nil
  show ?case by (simp add: js_sort_def)
next
  case (Cons x xs)
  have "js_sort cmp (x # xs) = js_insert cmp x (js_sort cmp xs)"
    by (simp add: js_sort_def)
  with Cons show ?case by (simp add: distinct_js_insert set_js_sort)
qed

text \<open>Sorting with \<^verbatim>\<open>(a,b) => key(b) - key(a)\<close> leaves the keys descending.\<close>

lemma sorted_js_insert:
  fixes key :: "'a \<Rightarrow> int"
  assumes "sorted_wrt (\<lambda>a b. key b \<le> key a) ys"
  shows "sorted_wrt (\<lambda>a b. key b \<le> key a) (js_insert (\<lambda>a b. key b - key a) x ys)"
  using assms by (induction ys) (auto simp: set_js_insert)

lemma sorted_js_sort:
  fixes key :: "'a \<Rightarrow> int"
  shows "sorted_wrt (\<lambda>a b. key b \<le> key a) (js_sort (\<lambda>a b. key b - key a) xs)"
proof (induction xs)
  case Nil
  show ?case by (simp add: js_sort_def)
next
  case (Cons x xs)
  have "js_sort (\<lambda>a b. key b - key a) (x # xs) =
      js_insert (\<lambda>a b. key b - key a) x (js_sort (\<lambda>a b. key b - key a) xs)"
    by (simp add: js_sort_def)
  with Cons sorted_js_insert [of key] show ?case by simp
qed

lemma descending_unique:
  fixes key :: "'a \<Rightarrow> int"
  assumes "inj key" "distinct xs" "distinct ys" "set xs = set ys"
    and "sorted_wrt (\<lambda>a b. key b \<le> key a) xs" "sorted_wrt (\<lambda>a b. key b \<le> key a) ys"
  shows "xs = ys"
proof -
  have sx: "sorted (rev (map key xs))" and sy: "sorted (rev (map key ys))"
    using assms(5,6) by (simp_all add: sorted_wrt_rev sorted_wrt_map)
  have dx: "distinct (rev (map key xs))" and dy: "distinct (rev (map key ys))"
    using assms(1-3) by (simp_all add: distinct_map inj_on_def inj_def)
  have "set (rev (map key xs)) = set (rev (map key ys))"
    using assms(4) by simp
  with sorted_distinct_set_unique [OF sx dx sy dy]
  have "rev (map key xs) = rev (map key ys)" by simp
  then have "map key xs = map key ys" by simp
  with assms(1) show ?thesis by (simp add: inj_map_eq_map)
qed

subsection \<open>The keys of \<^verbatim>\<open>counts\<close>\<close>

lemma digit_or_letter: "k \<in> set digit_ranks \<or> k \<in> {RJ, RQ, RK, RA}"
  by (cases k) (simp_all add: digit_ranks_def)

lemma set_count_keys: "set (count_keys rs) = set rs"
  by (auto simp: count_keys_def first_seen_def)

lemma distinct_count_keys: "distinct (count_keys rs)"
  by (auto simp: count_keys_def first_seen_def digit_ranks_def)

lemma count_pos_iff: "0 < count_list rs r \<longleftrightarrow> r \<in> set rs"
  using count_list_0_iff [of rs r] by auto

lemma two_ranks_counts: "r \<noteq> r' \<Longrightarrow> count_list rs r + count_list rs r' \<le> length rs"
  by (induction rs) auto

lemma find_the_only:
  assumes "r \<in> set xs" "P r" "\<And>x. P x \<Longrightarrow> x = r"
  shows "find P xs = Some r"
proof (cases "find P xs")
  case None
  with assms(1,2) show ?thesis by (auto simp: find_None_iff)
next
  case (Some x)
  then have "P x" by (auto simp: find_Some_iff)
  with assms(3) Some show ?thesis by simp
qed

text \<open>
  \<^verbatim>\<open>getKeyByValue\<close> depends only on which rank has the count, when at most one
  rank has it: the order in which the keys are enumerated does not matter.
\<close>

lemma getKeyByValue_unique:
  assumes "0 < v" "count_list rs r = v" "\<And>x. count_list rs x = v \<Longrightarrow> x = r"
  shows "getKeyByValue rs v = Str (rank_str r)"
proof -
  from assms(1,2) have "r \<in> set (count_keys rs)"
    using count_pos_iff [of rs r] by (simp add: set_count_keys)
  from find_the_only [of r "count_keys rs" "\<lambda>k. count_list rs k = v", OF this assms(2) assms(3)]
  show ?thesis by (simp add: getKeyByValue_def)
qed

lemma getKeyByValue_none:
  assumes "\<And>x. count_list rs x \<noteq> v"
  shows "getKeyByValue rs v = Null"
proof -
  have "find (\<lambda>k. count_list rs k = v) (count_keys rs) = None"
    using assms by (simp add: find_None_iff)
  then show ?thesis by (simp add: getKeyByValue_def)
qed

lemma getKeyByValue_same:
  assumes "0 < v"
    and "\<And>x y. count_list rs1 x = v \<Longrightarrow> count_list rs1 y = v \<Longrightarrow> x = y"
    and "\<And>x. count_list rs1 x = v \<longleftrightarrow> count_list rs2 x = v"
  shows "getKeyByValue rs1 v = getKeyByValue rs2 v"
proof (cases "\<exists>r. count_list rs1 r = v")
  case True
  then obtain r where r: "count_list rs1 r = v" by blast
  have u1: "\<And>x. count_list rs1 x = v \<Longrightarrow> x = r" using assms(2) r by blast
  have r2: "count_list rs2 r = v" using assms(3) r by blast
  have u2: "\<And>x. count_list rs2 x = v \<Longrightarrow> x = r" using assms(3) u1 by blast
  show ?thesis
    using getKeyByValue_unique [OF assms(1) r u1] getKeyByValue_unique [OF assms(1) r2 u2]
    by simp
next
  case False
  then have n1: "\<And>x. count_list rs1 x \<noteq> v" by blast
  then have n2: "\<And>x. count_list rs2 x \<noteq> v" using assms(3) by blast
  show ?thesis using getKeyByValue_none [OF n1] getKeyByValue_none [OF n2] by simp
qed

lemma inj_order: "inj order"
proof (rule injI)
  fix x y assume "order x = order y"
  then show "x = y" by (cases x; cases y; simp)
qed

lemma pairValues_same:
  assumes "\<And>x. count_list rs1 x = 2 \<longleftrightarrow> count_list rs2 x = 2"
  shows "pairValues rs1 = pairValues rs2"
proof -
  let ?p1 = "filter (\<lambda>k. count_list rs1 k = 2) (count_keys rs1)"
  let ?p2 = "filter (\<lambda>k. count_list rs2 k = 2) (count_keys rs2)"
  let ?cmp = "\<lambda>a b. order b - order a"
  have in1: "count_list rs1 x = 2 \<Longrightarrow> x \<in> set rs1" for x
    using count_pos_iff [of rs1 x] by simp
  have in2: "count_list rs2 x = 2 \<Longrightarrow> x \<in> set rs2" for x
    using count_pos_iff [of rs2 x] by simp
  have "set ?p1 = set ?p2"
    using assms in1 in2 by (auto simp: set_count_keys)
  then have s: "set (js_sort ?cmp ?p1) = set (js_sort ?cmp ?p2)"
    by (simp add: set_js_sort)
  have "js_sort ?cmp ?p1 = js_sort ?cmp ?p2"
    by (rule descending_unique [OF inj_order _ _ s])
      (simp_all add: distinct_js_sort distinct_count_keys sorted_js_sort)
  then show ?thesis by (simp add: pairValues_def)
qed

subsection \<open>The score of each category\<close>

lemma score_head:
  "\<exists>t. score (rankHand h) = Num (category h) # t \<and> 1 \<le> category h \<and> category h \<le> 9"
  by (simp add: rankHand_def name_score_def category_def Let_def)

lemma score_straight_flush:
  "category h = 9 \<Longrightarrow> score (rankHand h) = [Num 9, Num (hand_vals h ! 0)]"
  by (auto simp: rankHand_def name_score_def category_def Let_def freq_is_def split: if_splits)

lemma score_four:
  "category h = 8 \<Longrightarrow> score (rankHand h) = [Num 8, getKeyByValue (map card_r h) 4]"
  by (auto simp: rankHand_def name_score_def category_def Let_def freq_is_def split: if_splits)

lemma score_full_house:
  "category h = 7 \<Longrightarrow> score (rankHand h) = [Num 7, getKeyByValue (map card_r h) 3]"
  by (auto simp: rankHand_def name_score_def category_def Let_def freq_is_def split: if_splits)

lemma score_flush:
  "category h = 6 \<Longrightarrow> score (rankHand h) = Num 6 # map Num (hand_vals h)"
  by (auto simp: rankHand_def name_score_def category_def Let_def freq_is_def split: if_splits)

lemma score_straight:
  "category h = 5 \<Longrightarrow> score (rankHand h) = [Num 5, Num (hand_vals h ! 0)]"
  by (auto simp: rankHand_def name_score_def category_def Let_def freq_is_def split: if_splits)

lemma score_three:
  "category h = 4 \<Longrightarrow> score (rankHand h) = [Num 4, getKeyByValue (map card_r h) 3]"
  by (auto simp: rankHand_def name_score_def category_def Let_def freq_is_def split: if_splits)

lemma score_two_pair:
  "category h = 3 \<Longrightarrow> score (rankHand h) = Num 3 # pairValues (map card_r h)"
  by (auto simp: rankHand_def name_score_def category_def Let_def freq_is_def split: if_splits)

lemma score_one_pair:
  "category h = 2 \<Longrightarrow>
   score (rankHand h) = [Num 2, getKeyByValue (map card_r h) 2] \<and>
   freq_is (hand_freq h) 0 2 \<and> \<not> freq_is (hand_freq h) 1 2"
  by (auto simp: rankHand_def name_score_def category_def Let_def freq_is_def split: if_splits)

lemma score_high_card:
  "category h = 1 \<Longrightarrow> score (rankHand h) = Num 1 # map Num (hand_vals h)"
  by (auto simp: rankHand_def name_score_def category_def Let_def freq_is_def split: if_splits)

lemma vals_rankHand: "vals (rankHand h) = hand_vals h"
  by (simp add: rankHand_def)

lemma length_hand_vals: "length (hand_vals h) = length h"
  by (simp add: hand_vals_def length_js_sort)

lemma hand_vals_descending: "sorted_wrt (\<lambda>a b. b \<le> a) (hand_vals h)"
  using sorted_js_sort [of "\<lambda>v. v" "map (\<lambda>c. order (card_r c)) h"]
  by (simp add: hand_vals_def)

subsection \<open>The loop of the comparator\<close>

lemma score_loop_heads:
  "score_loop (Num c # xs) (Num d # ys) =
     (if d < c then 1 else if c < d then - 1 else score_loop xs ys)"
  by (simp add: cmp_step_def)

lemma score_loop_numbers:
  "length xs = length ys \<Longrightarrow> score_loop (map Num xs) (map Num ys) = lex_compare xs ys"
  by (induction xs ys rule: list_induct2) (simp_all add: cmp_step_def)

lemma str_less_irrefl: "\<not> str_less s s"
  by (induction s) simp_all

lemma js_less_irrefl: "\<not> js_less x x"
  by (cases x) (simp_all add: str_less_irrefl split: option.splits)

lemma score_loop_same: "score_loop s s = 0"
  by (induction s) (simp_all add: cmp_step_def js_less_irrefl)

subsection \<open>One pair means one pair\<close>

lemma second_pair_seen:
  assumes "r \<noteq> r'"
    and "count_list (map card_r h) r = 2"
    and "count_list (map card_r h) r' = 2"
    and "freq_is (hand_freq h) 0 2"
  shows "freq_is (hand_freq h) 1 2"
proof -
  let ?rs = "map card_r h"
  let ?K = "count_keys ?rs"
  let ?F = "hand_freq h"
  have rK: "r \<in> set ?K" "r' \<in> set ?K"
    using assms(2,3) count_pos_iff [of ?rs r] count_pos_iff [of ?rs r']
    by (simp_all add: set_count_keys)
  have "{r, r'} \<subseteq> set (filter (\<lambda>k. count_list ?rs k = 2) ?K)"
    using rK assms(2,3) by simp
  then have "card {r, r'} \<le> card (set (filter (\<lambda>k. count_list ?rs k = 2) ?K))"
    by (intro card_mono) simp_all
  moreover have "card (set (filter (\<lambda>k. count_list ?rs k = 2) ?K)) =
      length (filter (\<lambda>k. count_list ?rs k = 2) ?K)"
    by (intro distinct_card distinct_filter distinct_count_keys)
  ultimately have "2 \<le> length (filter (\<lambda>k. count_list ?rs k = 2) ?K)"
    using assms(1) by simp
  moreover have "length (filter (\<lambda>n. n = 2) (map (count_list ?rs) ?K)) =
      length (filter (\<lambda>k. count_list ?rs k = 2) ?K)"
    by (simp add: filter_map comp_def)
  ultimately have two: "2 \<le> length (filter (\<lambda>n. n = 2) ?F)"
    by (simp add: hand_freq_def filter_js_sort)
  have srt: "sorted_wrt (\<lambda>a b. b \<le> a) ?F"
    using sorted_js_sort [of int "map (count_list ?rs) ?K"] by (simp add: hand_freq_def)
  from assms(4) obtain rest where F: "?F = 2 # rest"
    by (cases ?F) (simp_all add: freq_is_def)
  with two have "1 \<le> length (filter (\<lambda>n. n = 2) rest)" by simp
  then have "filter (\<lambda>n. n = 2) rest \<noteq> []" by auto
  then have in_rest: "2 \<in> set rest" by (auto simp: filter_empty_conv)
  then obtain b rest' where rest: "rest = b # rest'" by (cases rest) auto
  from srt F rest have "b \<le> 2" "\<forall>x\<in>set rest'. x \<le> b" by simp_all
  with in_rest rest have "b = 2" by auto
  with F rest show ?thesis by (simp add: freq_is_def)
qed

lemma repeats_count_iff:
  assumes "repeats h1 = repeats h2" "2 \<le> v"
  shows "count_list (map card_r h1) x = v \<longleftrightarrow> count_list (map card_r h2) x = v"
proof -
  from assms(1) have "repeats h1 x = repeats h2 x" by simp
  with assms(2) show ?thesis by (auto simp: repeats_def split: if_splits)
qed

lemma key_same_triple_quad:
  assumes "length h1 = 5" "repeats h1 = repeats h2" "v = 3 \<or> v = 4"
  shows "getKeyByValue (map card_r h1) v = getKeyByValue (map card_r h2) v"
proof (rule getKeyByValue_same)
  show "0 < v" using assms(3) by auto
next
  fix x y
  assume c: "count_list (map card_r h1) x = v" "count_list (map card_r h1) y = v"
  show "x = y"
  proof (rule ccontr)
    assume "x \<noteq> y"
    from two_ranks_counts [OF this, of "map card_r h1"] c assms(1,3) show False by auto
  qed
next
  fix x
  show "count_list (map card_r h1) x = v \<longleftrightarrow> count_list (map card_r h2) x = v"
    using repeats_count_iff [OF assms(2)] assms(3) by auto
qed

lemma key_same_one_pair:
  assumes "category h1 = 2" "repeats h1 = repeats h2"
  shows "getKeyByValue (map card_r h1) 2 = getKeyByValue (map card_r h2) 2"
proof (rule getKeyByValue_same)
  show "(0::nat) < 2" by simp
next
  fix x y
  assume c: "count_list (map card_r h1) x = 2" "count_list (map card_r h1) y = 2"
  from score_one_pair [OF assms(1)]
  have f: "freq_is (hand_freq h1) 0 2" "\<not> freq_is (hand_freq h1) 1 2" by simp_all
  show "x = y"
  proof (rule ccontr)
    assume "x \<noteq> y"
    from second_pair_seen [OF this c f(1)] f(2) show False by simp
  qed
next
  fix x
  show "count_list (map card_r h1) x = 2 \<longleftrightarrow> count_list (map card_r h2) x = 2"
    using repeats_count_iff [OF assms(2), of 2 x] by simp
qed

lemma tie_on_repeated_ranks:
  assumes "length h1 = 5" "category h1 = category h2" "category h1 \<in> {2, 3, 4, 7, 8}"
    and "repeats h1 = repeats h2"
  shows "compareRank (rankHand h1) (rankHand h2) = 0"
proof -
  have "score (rankHand h1) = score (rankHand h2)"
  proof -
    consider "category h1 = 2" | "category h1 = 3" | "category h1 = 4" | "category h1 = 7"
      | "category h1 = 8" using assms(3) by auto
    then show ?thesis
    proof cases
      case 1
      with assms(2) have "category h2 = 2" by simp
      with 1 score_one_pair [of h1] score_one_pair [of h2] key_same_one_pair [OF 1 assms(4)]
      show ?thesis by simp
    next
      case 2
      with assms(2) have "category h2 = 3" by simp
      moreover have "pairValues (map card_r h1) = pairValues (map card_r h2)"
        by (rule pairValues_same) (use repeats_count_iff [OF assms(4), of 2] in simp)
      ultimately show ?thesis using 2 score_two_pair [of h1] score_two_pair [of h2] by simp
    next
      case 3
      with assms(2) have "category h2 = 4" by simp
      with 3 score_three [of h1] score_three [of h2]
        key_same_triple_quad [OF assms(1) assms(4), of 3]
      show ?thesis by simp
    next
      case 4
      with assms(2) have "category h2 = 7" by simp
      with 4 score_full_house [of h1] score_full_house [of h2]
        key_same_triple_quad [OF assms(1) assms(4), of 3]
      show ?thesis by simp
    next
      case 5
      with assms(2) have "category h2 = 8" by simp
      with 5 score_four [of h1] score_four [of h2]
        key_same_triple_quad [OF assms(1) assms(4), of 4]
      show ?thesis by simp
    qed
  qed
  then show ?thesis by (simp add: compareRank_def score_loop_same)
qed

lemma category_decides:
  "category h1 < category h2 \<Longrightarrow> compareRank (rankHand h1) (rankHand h2) = - 1"
  "category h2 < category h1 \<Longrightarrow> compareRank (rankHand h1) (rankHand h2) = 1"
proof -
  from score_head [of h1] obtain t1 where s1: "score (rankHand h1) = Num (category h1) # t1"
    by blast
  from score_head [of h2] obtain t2 where s2: "score (rankHand h2) = Num (category h2) # t2"
    by blast
  show "category h1 < category h2 \<Longrightarrow> compareRank (rankHand h1) (rankHand h2) = - 1"
    by (simp add: compareRank_def s1 s2 cmp_step_def)
  show "category h2 < category h1 \<Longrightarrow> compareRank (rankHand h1) (rankHand h2) = 1"
    by (simp add: compareRank_def s1 s2 cmp_step_def)
qed

lemma all_values_decide:
  assumes "length h1 = length h2" "category h1 = category h2"
    and "category h1 = 1 \<or> category h1 = 6"
  shows "compareRank (rankHand h1) (rankHand h2) = lex_compare (hand_vals h1) (hand_vals h2)"
proof -
  have len: "length (hand_vals h1) = length (hand_vals h2)"
    using assms(1) by (simp add: length_hand_vals)
  from assms(3) show ?thesis
  proof
    assume c: "category h1 = 1"
    with assms(2) have "category h2 = 1" by simp
    with c score_high_card [of h1] score_high_card [of h2] score_loop_numbers [OF len]
    show ?thesis by (simp add: compareRank_def cmp_step_def)
  next
    assume c: "category h1 = 6"
    with assms(2) have "category h2 = 6" by simp
    with c score_flush [of h1] score_flush [of h2] score_loop_numbers [OF len]
    show ?thesis by (simp add: compareRank_def cmp_step_def)
  qed
qed

lemma top_card_decides:
  assumes "length h1 = 5" "length h2 = 5" "category h1 = category h2"
    and "category h1 = 5 \<or> category h1 = 9"
  shows "compareRank (rankHand h1) (rankHand h2) =
     lex_compare (take 1 (hand_vals h1)) (take 1 (hand_vals h2))"
proof -
  have t1: "take 1 (hand_vals h1) = [hand_vals h1 ! 0]"
    using assms(1) length_hand_vals [of h1] by (cases "hand_vals h1") simp_all
  have t2: "take 1 (hand_vals h2) = [hand_vals h2 ! 0]"
    using assms(2) length_hand_vals [of h2] by (cases "hand_vals h2") simp_all
  from assms(4) show ?thesis
  proof
    assume c: "category h1 = 5"
    with assms(3) have "category h2 = 5" by simp
    with c score_straight [of h1] score_straight [of h2] t1 t2
    show ?thesis by (simp add: compareRank_def cmp_step_def)
  next
    assume c: "category h1 = 9"
    with assms(3) have "category h2 = 9" by simp
    with c score_straight_flush [of h1] score_straight_flush [of h2] t1 t2
    show ?thesis by (simp add: compareRank_def cmp_step_def)
  qed
qed
subsection \<open>The claim about the comparator\<close>

text \<open>
  C5 as stated fails: the comparator does not compare the tiebreak sequences the
  specification describes. Two pairs of kings, one with an ace and one with a queen
  as the best kicker, are an exact tie for the code (the score of a pair holds the
  repeated rank and no kicker), where the sequences of the specification put the ace
  first; and a pair of nines beats a pair of tens for the code (the repeated rank is
  held as the key of \<^verbatim>\<open>counts\<close>, a string, and \<^verbatim>\<open>'9' > '10'\<close>), where the
  numeric values put the tens first.
\<close>

theorem compareRank_not_spec_order:
  "compareRank (rankHand kings_ace) (rankHand kings_queen) = 0 \<and>
   spec_compare kings_ace kings_queen = 1 \<and>
   compareRank (rankHand nines) (rankHand tens) = 1 \<and>
   spec_compare nines tens = - 1"
  by (simp add: eval_defs hand_defs spec_compare_def spec_tiebreak_def category_def)

text \<open>
  C5, amended: for every pair of five-card hands the comparator orders by category
  first; within flush and high card by the lexicographic comparison of all five
  values descending; within straight and straight flush by the top card only; and in
  the categories with a pair, two pairs, a triple, a full house or a quad the score
  holds the repeated ranks and no kicker, so that two hands of the same such category
  with the same repeated ranks are an exact tie, whatever their kickers. (How two
  different repeated ranks compare is left out.)
\<close>

theorem compareRank_by_design:
  assumes "length h1 = 5" and "length h2 = 5"
  shows
    "(category h1 < category h2 \<longrightarrow> compareRank (rankHand h1) (rankHand h2) = - 1) \<and>
     (category h2 < category h1 \<longrightarrow> compareRank (rankHand h1) (rankHand h2) = 1) \<and>
     (category h1 = category h2 \<and> (category h1 = 1 \<or> category h1 = 6) \<longrightarrow>
        compareRank (rankHand h1) (rankHand h2) =
          lex_compare (vals (rankHand h1)) (vals (rankHand h2))) \<and>
     (category h1 = category h2 \<and> (category h1 = 5 \<or> category h1 = 9) \<longrightarrow>
        compareRank (rankHand h1) (rankHand h2) =
          lex_compare (take 1 (vals (rankHand h1))) (take 1 (vals (rankHand h2)))) \<and>
     (category h1 = category h2 \<and> category h1 \<in> {2, 3, 4, 7, 8} \<and> repeats h1 = repeats h2 \<longrightarrow>
        compareRank (rankHand h1) (rankHand h2) = 0)"
proof (intro conjI impI)
  assume "category h1 < category h2"
  then show "compareRank (rankHand h1) (rankHand h2) = - 1" by (rule category_decides)
next
  assume "category h2 < category h1"
  then show "compareRank (rankHand h1) (rankHand h2) = 1" by (rule category_decides)
next
  assume a: "category h1 = category h2 \<and> (category h1 = 1 \<or> category h1 = 6)"
  have "length h1 = length h2" using assms by simp
  from all_values_decide [OF this] a
  show "compareRank (rankHand h1) (rankHand h2) =
      lex_compare (vals (rankHand h1)) (vals (rankHand h2))"
    by (auto simp: vals_rankHand)
next
  assume a: "category h1 = category h2 \<and> (category h1 = 5 \<or> category h1 = 9)"
  from top_card_decides [OF assms] a
  show "compareRank (rankHand h1) (rankHand h2) =
      lex_compare (take 1 (vals (rankHand h1))) (take 1 (vals (rankHand h2)))"
    by (auto simp: vals_rankHand)
next
  assume a: "category h1 = category h2 \<and> category h1 \<in> {2, 3, 4, 7, 8} \<and> repeats h1 = repeats h2"
  then show "compareRank (rankHand h1) (rankHand h2) = 0"
    using tie_on_repeated_ranks [OF assms(1), of h2] by blast
qed

theorem compareRank_by_design_witness:
  "length kings_ace = 5 \<and> length kings_queen = 5 \<and>
   category kings_ace = 2 \<and> category kings_queen = 2 \<and>
   repeats kings_ace = repeats kings_queen \<and>
   compareRank (rankHand kings_ace) (rankHand kings_queen) = 0 \<and>
   length aces_up = 5 \<and> length threes_full = 5 \<and>
   category aces_up < category threes_full \<and>
   compareRank (rankHand aces_up) (rankHand threes_full) = - 1 \<and>
   length ace_high = 5 \<and> length king_high = 5 \<and>
   category ace_high = 1 \<and> category king_high = 1 \<and>
   compareRank (rankHand ace_high) (rankHand king_high) =
     lex_compare [14, 11, 9, 5, 2] [13, 12, 9, 5, 3] \<and>
   length straight_9 = 5 \<and> length straight_8 = 5 \<and>
   category straight_9 = 5 \<and> category straight_8 = 5 \<and>
   compareRank (rankHand straight_9) (rankHand straight_8) = lex_compare [9] [8]"
proof -
  have l: "length kings_ace = 5" "length kings_queen = 5" "length aces_up = 5"
    "length threes_full = 5" "length ace_high = 5" "length king_high = 5"
    "length straight_9 = 5" "length straight_8 = 5"
    by (simp_all add: hand_defs)
  have c: "category kings_ace = 2" "category kings_queen = 2" "category aces_up = 3"
    "category threes_full = 7" "category ace_high = 1" "category king_high = 1"
    "category straight_9 = 5" "category straight_8 = 5"
    by (simp_all add: eval_defs hand_defs category_def)
  have v: "vals (rankHand ace_high) = [14, 11, 9, 5, 2]"
    "vals (rankHand king_high) = [13, 12, 9, 5, 3]"
    "take 1 (vals (rankHand straight_9)) = [9]" "take 1 (vals (rankHand straight_8)) = [8]"
    by (simp_all add: eval_defs hand_defs)
  have r: "repeats kings_ace = repeats kings_queen"
    by (rule ext, rename_tac x, case_tac x; simp add: repeats_def hand_defs)
  have "compareRank (rankHand kings_ace) (rankHand kings_queen) = 0"
    using compareRank_by_design [OF l(1) l(2)] c r by simp
  moreover have "compareRank (rankHand aces_up) (rankHand threes_full) = - 1"
    using compareRank_by_design [OF l(3) l(4)] c by simp
  moreover have "compareRank (rankHand ace_high) (rankHand king_high) =
      lex_compare [14, 11, 9, 5, 2] [13, 12, 9, 5, 3]"
    using compareRank_by_design [OF l(5) l(6)] c v by simp
  moreover have "compareRank (rankHand straight_9) (rankHand straight_8) = lex_compare [9] [8]"
    using compareRank_by_design [OF l(7) l(8)] c v by simp
  ultimately show ?thesis using l c r by simp
qed

section \<open>The poker round when the deck suffices\<close>


lemma deal_users:
  "deal us d = Some rs \<Longrightarrow> map r_user rs = us"
  by (induction us d arbitrary: rs rule: deal.induct) (auto split: option.splits)

lemma deal_enough:
  "5 * length us \<le> length d \<Longrightarrow> deal us d \<noteq> None"
  by (induction us d rule: deal.induct) (auto split: option.splits)

lemma deal_short:
  "length d < 5 * length us \<Longrightarrow> deal us d = None"
  by (induction us d rule: deal.induct) (auto split: option.splits)

lemma add_balance_other: "n \<noteq> m \<Longrightarrow> add_balance m a us n = us n"
  by (simp add: add_balance_def split: option.splits)

lemma add_balance_same:
  "add_balance m a us m = map_option (\<lambda>x. x\<lparr>balance := balance x + a\<rparr>) (us m)"
  by (simp add: add_balance_def split: option.splits)

lemma fold_add_balance_outside:
  "n \<notin> set ps \<Longrightarrow> fold (\<lambda>m. add_balance m a) ps us n = us n"
  by (induction ps arbitrary: us) (auto simp: add_balance_other)

lemma fold_add_balance_inside:
  "distinct ps \<Longrightarrow> n \<in> set ps \<Longrightarrow>
   fold (\<lambda>m. add_balance m a) ps us n = map_option (\<lambda>x. x\<lparr>balance := balance x + a\<rparr>) (us n)"
proof (induction ps arbitrary: us)
  case Nil
  then show ?case by simp
next
  case (Cons p ps)
  show ?case
  proof (cases "n = p")
    case True
    with Cons.prems have "n \<notin> set ps" by simp
    with True show ?thesis by (simp add: fold_add_balance_outside add_balance_same)
  next
    case False
    with Cons show ?thesis by (simp add: add_balance_other)
  qed
qed


lemma poker_start_no_players:
  assumes "sockets st sid = Some usr" "users st usr = Some u" "b \<le> balance u"
    and "\<not> list_ex (\<lambda>n. users st n = None) (map fst (online st))"
    and "participants_of st b = []"
  shows "poker_start sid b d st = Rejected ''no players with enough funds.''"
  using assms by (simp add: poker_start_def)

lemma poker_start_pays_one:
  assumes "sockets st sid = Some usr" "users st usr = Some u" "b \<le> balance u"
    and "distinct (map fst (online st))"
    and "\<not> list_ex (\<lambda>n. users st n = None) (map fst (online st))"
    and "participants_of st b \<noteq> []"
    and "5 * length (participants_of st b) \<le> length d"
  shows "\<exists>w st'. w \<in> set (participants_of st b) \<and> poker_start sid b d st = Done st' \<and>
     giveaways st' = giveaways st \<and>
     (\<forall>n. balance_of st' n =
        (if n = w
         then map_option (\<lambda>x. x - b + b * int (length (participants_of st b))) (balance_of st n)
         else if n \<in> set (participants_of st b) then map_option (\<lambda>x. x - b) (balance_of st n)
         else balance_of st n))"
proof -
  let ?ps = "participants_of st b"
  let ?cmp = "\<lambda>x y. compareRank (r_rank y) (r_rank x)"
  have dps: "distinct ?ps" using assms(4) by (simp add: participants_of_def)
  from deal_enough [OF assms(7)] obtain results where res: "deal ?ps d = Some results" by auto
  from deal_users [OF res] have us: "map r_user results = ?ps" .
  let ?sorted = "js_sort ?cmp results"
  let ?w = "r_user (hd ?sorted)"
  have "length ?sorted = length ?ps" using us by (simp add: length_js_sort) (metis length_map)
  with assms(6) have ne: "?sorted \<noteq> []" by auto
  then have "hd ?sorted \<in> set results" using set_js_sort [of ?cmp results] by (metis hd_in_set)
  then have w: "?w \<in> set ?ps" using us by (metis image_eqI set_map)
  let ?us1 = "fold (\<lambda>n. add_balance n (- b)) ?ps (users st)"
  let ?st' = "st\<lparr>users := add_balance ?w (b * int (length ?ps)) ?us1\<rparr>"
  have run: "poker_start sid b d st = Done ?st'"
    using assms(1-3,5,6) res by (simp add: poker_start_def Let_def)
  have bal: "balance_of ?st' n =
        (if n = ?w
         then map_option (\<lambda>x. x - b + b * int (length ?ps)) (balance_of st n)
         else if n \<in> set ?ps then map_option (\<lambda>x. x - b) (balance_of st n)
         else balance_of st n)" for n
  proof (cases "n = ?w")
    case True
    with w dps show ?thesis
      by (simp add: balance_of_def add_balance_same fold_add_balance_inside option.map_comp comp_def)
  next
    case False
    show ?thesis
    proof (cases "n \<in> set ?ps")
      case True
      with False dps show ?thesis
        by (simp add: balance_of_def add_balance_other fold_add_balance_inside
            option.map_comp comp_def)
    next
      case no: False
      with False show ?thesis
        by (simp add: balance_of_def add_balance_other fold_add_balance_outside)
    qed
  qed
  from w run bal show ?thesis by (intro exI [of _ ?w] exI [of _ ?st']) simp
qed

lemma poker_start_deck_exhausted:
  assumes "sockets st sid = Some usr" "users st usr = Some u" "b \<le> balance u"
    and "\<not> list_ex (\<lambda>n. users st n = None) (map fst (online st))"
    and "length d < 5 * length (participants_of st b)"
  shows "poker_start sid b d st =
     Threw (st\<lparr>users := fold (\<lambda>n. add_balance n (- b)) (participants_of st b) (users st)\<rparr>)"
proof -
  from assms(5) have "participants_of st b \<noteq> []" by auto
  with assms(1-4) deal_short [OF assms(5)] show ?thesis
    by (simp add: poker_start_def Let_def)
qed


section \<open>The scheduler when the drawn name is a user\<close>

lemma tick_empty_queue: "giveaways st = [] \<Longrightarrow> tick now pick st = Ignored"
  by (simp add: tick_def)

lemma tick_leaves_open:
  assumes "giveaways st = g # rest" "now - createdAt g \<le> 45000" "length (entrants g) < 5"
  shows "tick now pick st = Done st"
  using assms by (simp add: tick_def)

lemma tick_refunds_host:
  assumes "giveaways st = g # rest"
    and "45000 < now - createdAt g \<or> 5 \<le> length (entrants g)"
    and "entrants g = []" "users st (host g) = Some u"
  shows "tick now pick st =
     Done (st\<lparr>users := (users st)(host g \<mapsto> u\<lparr>balance := balance u + amount g\<rparr>),
              giveaways := rest\<rparr>)"
  using assms by (auto simp: tick_def)

lemma tick_awards_entrant:
  assumes "giveaways st = g # rest"
    and "45000 < now - createdAt g \<or> 5 \<le> length (entrants g)"
    and "pick < length (entrants g)" "users st (entrants g ! pick) = Some u"
  shows "tick now pick st =
     Done (st\<lparr>users := (users st)(entrants g ! pick \<mapsto> u\<lparr>balance := balance u + amount g\<rparr>),
              giveaways := rest\<rparr>)"
  using assms by (auto simp: tick_def)

lemma tick_raises_on_stranger:
  assumes "giveaways st = g # rest"
    and "45000 < now - createdAt g \<or> 5 \<le> length (entrants g)"
    and "pick < length (entrants g)" "users st (entrants g ! pick) = None"
  shows "tick now pick st = Threw st"
  using assms by (auto simp: tick_def)

section \<open>Balances that stay non-negative\<close>

lemma solventD: "users st n = Some x \<Longrightarrow> solvent st \<Longrightarrow> 0 \<le> balance x"
  by (auto simp: solvent_def balance_of_def)

lemma solventI: "(\<And>n x. users st n = Some x \<Longrightarrow> 0 \<le> balance x) \<Longrightarrow> solvent st"
  by (auto simp: solvent_def balance_of_def)

lemma send_coins_solvent:
  assumes "solvent st" "send_coins sid to amt st = Done st'"
  shows "solvent st'"
proof (rule solventI)
  fix n x assume "users st' n = Some x"
  with assms solventD [of st] show "0 \<le> balance x"
    by (fastforce simp: send_coins_def add_balance_def
        split: option.splits if_splits)
qed

lemma send_coins_conserves:
  assumes "send_coins sid to amt st = Done st'" "sockets st sid = Some frm" "frm \<noteq> to"
    and "users st frm = Some x" "users st to = Some y"
  shows "balance_of st' frm = Some (balance x - amt) \<and> balance_of st' to = Some (balance y + amt)"
  using assms
  by (auto simp: send_coins_def balance_of_def add_balance_def split: option.splits if_splits)

lemma chat_giveaway_solvent:
  assumes "solvent st" "chat_giveaway sid amt now st = Done st'"
  shows "solvent st'"
proof (rule solventI)
  fix n x assume "users st' n = Some x"
  with assms solventD [of st] show "0 \<le> balance x"
    by (fastforce simp: chat_giveaway_def Let_def
        split: option.splits if_splits)
qed

lemma chat_enter_solvent:
  assumes "solvent st" "chat_enter sid st = Done st'"
  shows "solvent st'"
proof (rule solventI)
  fix n x assume "users st' n = Some x"
  with assms solventD [of st] show "0 \<le> balance x"
    by (fastforce simp: chat_enter_def Let_def
        split: option.splits if_splits)
qed

lemma bj_start_solvent:
  assumes "solvent st" "bj_start sid b d (st, cn) = Done (st', cn')"
  shows "solvent st'"
proof (rule solventI)
  fix n x assume "users st' n = Some x"
  with assms solventD [of st] show "0 \<le> balance x"
    by (fastforce simp: bj_start_def Let_def
        split: option.splits if_splits list.splits)
qed

lemma hit_solvent:
  assumes "solvent st" "bj_action sid ''hit'' (st, cn) = Done (st', cn')"
  shows "solvent st'"
proof (rule solventI)
  fix n x assume "users st' n = Some x"
  with assms solventD [of st] show "0 \<le> balance x"
    by (fastforce simp: bj_action_def Let_def
        split: option.splits if_splits list.splits)
qed

lemma stand_solvent:
  assumes "solvent st" "bj_action sid ''stand'' (st, cn) = Done (st', cn')"
    and "sockets st sid = Some usr" "bjStates cn usr = Some s" "0 \<le> bet s"
  shows "solvent st'"
proof (rule solventI)
  fix n x assume "users st' n = Some x"
  with assms solventD [of st] show "0 \<le> balance x"
    by (fastforce simp: bj_action_def Let_def
        split: option.splits if_splits)
qed

lemma tick_solvent:
  assumes "solvent st" "tick now pick st = Done st'" "list_all (\<lambda>g. 0 \<le> amount g) (giveaways st)"
  shows "solvent st'"
proof (rule solventI)
  fix n x assume "users st' n = Some x"
  with assms solventD [of st] show "0 \<le> balance x"
    by (fastforce simp: tick_def
        split: option.splits if_splits list.splits)
qed

lemma poker_start_solvent:
  assumes "solvent st" "poker_start sid b d st = Done st'" "0 \<le> b"
    and "distinct (map fst (online st))"
  shows "solvent st'"
proof -
  from assms(2) obtain usr u where a: "sockets st sid = Some usr" "users st usr = Some u"
    "b \<le> balance u" "\<not> list_ex (\<lambda>n. users st n = None) (map fst (online st))"
    "participants_of st b \<noteq> []"
    by (auto simp: poker_start_def Let_def split: option.splits if_splits)
  have enough: "5 * length (participants_of st b) \<le> length d"
  proof (rule ccontr)
    assume "\<not> 5 * length (participants_of st b) \<le> length d"
    then have "length d < 5 * length (participants_of st b)" by simp
    from poker_start_deck_exhausted [OF a(1-4) this] assms(2) show False by simp
  qed
  from poker_start_pays_one [OF a(1-3) assms(4) a(4,5) enough] assms(2)
  obtain w where w: "w \<in> set (participants_of st b)"
    and bal: "\<And>n. balance_of st' n =
        (if n = w
         then map_option (\<lambda>x. x - b + b * int (length (participants_of st b))) (balance_of st n)
         else if n \<in> set (participants_of st b) then map_option (\<lambda>x. x - b) (balance_of st n)
         else balance_of st n)"
    by auto
  have elig: "balance_of st n = Some v \<Longrightarrow> n \<in> set (participants_of st b) \<Longrightarrow> b \<le> v" for n v
    by (auto simp: participants_of_def balance_of_def)
  have pos: "0 \<le> b * int (length (participants_of st b))" using assms(3) by simp
  show ?thesis
    unfolding solvent_def
  proof (intro allI impI)
    fix n v assume nv: "balance_of st' n = Some v"
    note assms(1) [unfolded solvent_def]
    show "0 \<le> v"
    proof (cases "balance_of st n")
      case None
      with bal [of n] nv show ?thesis by (simp split: if_splits)
    next
      case (Some v0)
      with assms(1) have v0: "0 \<le> v0" by (simp add: solvent_def)
      show ?thesis
      proof (cases "n \<in> set (participants_of st b)")
        case False
        with w have "n \<noteq> w" by auto
        with False bal [of n] nv Some v0 show ?thesis by simp
      next
        case True
        from elig [OF Some True] have "b \<le> v0" .
        with bal [of n] nv Some True pos show ?thesis by (auto split: if_splits)
      qed
    qed
  qed
qed

section \<open>A busted hand stays in play\<close>

lemma hit_without_state:
  "sockets st sid = Some usr \<Longrightarrow> bjStates cn usr = None \<Longrightarrow> bj_action sid a (st, cn) = Ignored"
  by (simp add: bj_action_def)

text \<open>A hit draws a card whether or not the state is marked done.\<close>

lemma hit_draws_within_21:
  assumes "sockets st sid = Some usr" "bjStates cn usr = Some s" "deck s = c # d"
    and "valueHand (player s @ [c]) \<le> 21"
  shows "bj_action sid ''hit'' (st, cn) =
     Done (st, cn\<lparr>bjStates := (bjStates cn)(usr \<mapsto> s\<lparr>deck := d, player := player s @ [c]\<rparr>)\<rparr>)"
  using assms by (simp add: bj_action_def Let_def)

lemma hit_bust_keeps_state:
  assumes "sockets st sid = Some usr" "bjStates cn usr = Some s" "deck s = c # d"
    and "21 < valueHand (player s @ [c])"
  shows "bj_action sid ''hit'' (st, cn) =
     Done (st, cn\<lparr>bjStates := (bjStates cn)(usr \<mapsto>
       s\<lparr>deck := d, player := player s @ [c], done_flag := True\<rparr>)\<rparr>)"
  using assms by (simp add: bj_action_def Let_def)

section \<open>One user, two connections\<close>

lemma alice_twice:
  "auth ''s3'' ''alice'' both_online =
     Done (both_online\<lparr>sockets := (sockets both_online)(''s3'' \<mapsto> ''alice''),
                       online := [(''alice'', ''s3''), (''bob'', ''s2'')]\<rparr>)"
  by (simp add: auth_def put_def both_online_def seeded_def)

text \<open>
  C4 (the code departs from the claim). The claim: a stand on a live state settles
  it with the dealer's draws and the credit, and destroys it, so that the user has no
  live blackjack state afterwards. \<^verbatim>\<open>bjStates\<close>, a map from usernames, is declared
  inside the \<^verbatim>\<open>connection\<close> callback (\<^verbatim>\<open>sockets\<close> and \<^verbatim>\<open>online\<close> are
  module-level): every connection has its own, and the \<^verbatim>\<open>delete\<close> of the stand
  reaches only that of the connection the stand came on. Here \<^verbatim>\<open>alice\<close> is
  signed in on the sockets \<open>s1\<close> and \<open>s3\<close> and starts a hand with a bet of 10 on
  each (her balance goes from 100 to 80). She stands on \<open>s1\<close>: the dealer, at 20,
  draws nothing, her 21 wins, and she is credited 20. Her state on \<open>s1\<close> is gone,
  but on \<open>s3\<close> she still holds a state that is not marked done, worth 9, and a hit
  there draws the next card.
\<close>

theorem stand_leaves_other_connection_live:
  "(case auth ''s3'' ''alice'' both_online of
      Done st0 \<Rightarrow>
        (case bj_start ''s1'' 10 (rev unshuffled) (st0, new_conn) of
           Done (st1, cn1) \<Rightarrow>
             (case bj_start ''s3'' 10 cut_deck (st1, new_conn) of
                Done (st2, cn3) \<Rightarrow>
                  balance_of st2 ''alice'' = Some 80 \<and>
                  map_option (\<lambda>s. valueHand (player s)) (bjStates cn1 ''alice'') = Some 21 \<and>
                  map_option (\<lambda>s. valueHand (dealer s)) (bjStates cn1 ''alice'') = Some 20 \<and>
                  (case bj_action ''s1'' ''stand'' (st2, cn1) of
                     Done (st3, cn1') \<Rightarrow>
                       balance_of st3 ''alice'' = Some 100 \<and>
                       bjStates cn1' ''alice'' = None \<and>
                       map_option done_flag (bjStates cn3 ''alice'') = Some False \<and>
                       map_option (\<lambda>s. valueHand (player s)) (bjStates cn3 ''alice'') = Some 9 \<and>
                       (case bj_action ''s3'' ''hit'' (st3, cn3) of
                          Done (st4, cn3') \<Rightarrow>
                            map_option (\<lambda>s. valueHand (player s)) (bjStates cn3' ''alice'') =
                              Some 20
                        | _ \<Rightarrow> False)
                   | _ \<Rightarrow> False)
              | _ \<Rightarrow> False)
         | _ \<Rightarrow> False)
    | _ \<Rightarrow> False)"
  by (simp add: auth_def put_def cut_deck_def eval_defs)

end
